theory Spec2Isabelle
  imports Main "HOL-Library.Word"
begin

unbundle bit_operations_syntax

section \<open>Bytes, values and errors\<close>

type_synonym byte = "8 word"

text \<open>
  The arguments handed to \<^verbatim>\<open>newError(values...)\<close>: the platform's error constructor
  takes any values and keeps them; \<^verbatim>\<open>.Base(err)\<close> attaches the cause.
\<close>

datatype arg = Str string | Bytes "byte list" | Num int

datatype error =
    newError "arg list"
  | Base error error
  | EOF
  | ErrUnexpectedEOF
  | ErrBufferFull
  | ErrClosedPipe
  | External string

section \<open>The addons record\<close>

text \<open>
  Modelled from the spec: the addons record and its three sub-records (the message types
  are generated from the protobuf schema, and the generated file is not under src/). The
  fields are the ones the spec lists and the code reads. A generated Go enum is an
  \<^verbatim>\<open>int32\<close>; the numeric fields of the sub-records are taken as 32-bit (the code only
  assigns small constants to them and compares them); a \<^verbatim>\<open>[]byte\<close> is its byte sequence
  (Go's \<^verbatim>\<open>bytes.Equal\<close> and \<^verbatim>\<open>len\<close> do not tell nil from empty); a pointer to a
  sub-record is an option (\<open>None\<close> is nil).
\<close>

type_synonym SeedMode = "32 word"

record PaddingConfig =
  RegularMin :: "32 word"
  RegularMax :: "32 word"
  LongMin :: "32 word"
  LongMax :: "32 word"

record DelayConfig =
  IsRandom :: bool
  MinMillis :: "32 word"
  MaxMillis :: "32 word"

record SchedulerConfig =
  TimeoutMillis :: "32 word"

record Addons =
  Flow :: string
  Seed :: "byte list"
  Mode :: SeedMode
  Duration :: string
  Padding :: "PaddingConfig option"
  Delay :: "DelayConfig option"
  Scheduler :: "SchedulerConfig option"

text \<open>\<^verbatim>\<open>new(Addons)\<close>: every field at its zero value.\<close>

definition new_Addons :: Addons where
  "new_Addons = \<lparr>Flow = [], Seed = [], Mode = 0, Duration = [],
     Padding = None, Delay = None, Scheduler = None\<rparr>"

text \<open>
  Modelled from the spec: the constant \<^verbatim>\<open>vless.XRV\<close> (its package is not under src/), the
  flow name the header codec tests for.
\<close>

definition XRV :: string where
  "XRV = ''xtls-rprx-vision''"

section \<open>PopulateSeed and CheckSeed\<close>

text \<open>
  \<^verbatim>\<open>PopulateSeed(seed, addons)\<close> mutates the record in place; the model returns the
  updated record. The numeric value of the generated constant
  \<^verbatim>\<open>SeedMode_PaddingPlusDelay\<close> is the first parameter.
\<close>

definition PopulateSeed :: "SeedMode \<Rightarrow> string \<Rightarrow> Addons \<Rightarrow> Addons" where
  "PopulateSeed SeedMode_PaddingPlusDelay seed addons =
     (if length seed > 0 then
        addons\<lparr>Seed := [1],
          Mode := SeedMode_PaddingPlusDelay,
          Duration := ''0-8'',
          Padding := Some \<lparr>RegularMin = 0, RegularMax = 256, LongMin = 900, LongMax = 1400\<rparr>,
          Delay := Some \<lparr>IsRandom = True, MinMillis = 100, MaxMillis = 500\<rparr>,
          Scheduler := Some \<lparr>TimeoutMillis = 600\<rparr>\<rparr>
      else addons)"

text \<open>The three sub-record blocks of \<^verbatim>\<open>CheckSeed\<close>, each returning its error or nil.\<close>

definition checkPadding :: "PaddingConfig option \<Rightarrow> PaddingConfig option \<Rightarrow> error option" where
  "checkPadding p q =
     (case (p, q) of
        (Some x, Some y) \<Rightarrow>
          (if RegularMin x \<noteq> RegularMin y \<or> RegularMax x \<noteq> RegularMax y \<or>
              LongMin x \<noteq> LongMin y \<or> LongMax x \<noteq> LongMax y
           then Some (newError [Str ''Padding not match''])
           else None)
      | (None, None) \<Rightarrow> None
      | _ \<Rightarrow> Some (newError [Str ''Padding of one is nil but the other is not nil'']))"

definition checkDelay :: "DelayConfig option \<Rightarrow> DelayConfig option \<Rightarrow> error option" where
  "checkDelay p q =
     (case (p, q) of
        (Some x, Some y) \<Rightarrow>
          (if IsRandom x \<noteq> IsRandom y \<or> MinMillis x \<noteq> MinMillis y \<or>
              MaxMillis x \<noteq> MaxMillis y
           then Some (newError [Str ''Delay not match''])
           else None)
      | (None, None) \<Rightarrow> None
      | _ \<Rightarrow> Some (newError [Str ''Delay of one is nil but the other is not nil'']))"

definition checkScheduler :: "SchedulerConfig option \<Rightarrow> SchedulerConfig option \<Rightarrow> error option" where
  "checkScheduler p q =
     (case (p, q) of
        (Some x, Some y) \<Rightarrow>
          (if TimeoutMillis x \<noteq> TimeoutMillis y
           then Some (newError [Str ''Scheduler not match''])
           else None)
      | (None, None) \<Rightarrow> None
      | _ \<Rightarrow> Some (newError [Str ''Scheduler of one is nil but the other is not nil'']))"

text \<open>\<^verbatim>\<open>CheckSeed\<close> returns the first mismatch it meets, \<open>None\<close> (nil) when there is none.\<close>

definition CheckSeed :: "Addons \<Rightarrow> Addons \<Rightarrow> error option" where
  "CheckSeed requestAddons responseAddons =
     (if Seed requestAddons \<noteq> Seed responseAddons then
        Some (newError [Str ''Seed bytes not match'',
                Bytes (Seed requestAddons), Bytes (Seed responseAddons)])
      else if Mode requestAddons \<noteq> Mode responseAddons then
        Some (newError [Str ''Mode not match'',
                Num (sint (Mode requestAddons)), Num (sint (Mode responseAddons))])
      else if Duration requestAddons \<noteq> Duration responseAddons then
        Some (newError [Str ''Duration not match'',
                Str (Duration requestAddons), Str (Duration responseAddons)])
      else
        (case checkPadding (Padding requestAddons) (Padding responseAddons) of
           Some e \<Rightarrow> Some e
         | None \<Rightarrow>
        (case checkDelay (Delay requestAddons) (Delay responseAddons) of
           Some e \<Rightarrow> Some e
         | None \<Rightarrow> checkScheduler (Scheduler requestAddons) (Scheduler responseAddons))))"

section \<open>Buffers and byte streams\<close>

text \<open>
  Modelled from the spec: the platform's fixed-capacity byte buffer and multi-buffer (the
  package \<^verbatim>\<open>common/buf\<close> is not under src/). A buffer is its content, a byte sequence
  that holds at most \<open>buf_Size\<close> bytes (the spec's BufSize; 8192 in the platform); a
  multi-buffer is an ordered vector of buffers. \<^verbatim>\<open>WriteByte\<close> fails on a full buffer,
  \<^verbatim>\<open>Write\<close> copies what fits and reports no error, and \<^verbatim>\<open>ReadFullFrom\<close> appends exactly
  the requested number of bytes of the reader or fails. Returning buffers to the pool
  (\<^verbatim>\<open>Release\<close>, \<^verbatim>\<open>ReleaseMulti\<close>) has no effect on the bytes and is left out.
\<close>

type_synonym Buffer = "byte list"

type_synonym MultiBuffer = "Buffer list"

definition buf_Size :: nat where
  "buf_Size = 8192"

definition buf_New :: Buffer where
  "buf_New = []"

definition Clear :: "Buffer \<Rightarrow> Buffer" where
  "Clear b = []"

definition IsFull :: "Buffer \<Rightarrow> bool" where
  "IsFull b \<longleftrightarrow> length b \<ge> buf_Size"

definition WriteByte :: "Buffer \<Rightarrow> byte \<Rightarrow> error + Buffer" where
  "WriteByte b v = (if IsFull b then Inl ErrBufferFull else Inr (b @ [v]))"

definition Write :: "Buffer \<Rightarrow> byte list \<Rightarrow> error + Buffer" where
  "Write b data = Inr (b @ take (buf_Size - length b) data)"

definition mb_Len :: "MultiBuffer \<Rightarrow> nat" where
  "mb_Len mb = sum_list (map length mb)"

definition mb_IsEmpty :: "MultiBuffer \<Rightarrow> bool" where
  "mb_IsEmpty mb \<longleftrightarrow> list_all (\<lambda>b. b = []) mb"

text \<open>
  An \<^verbatim>\<open>io.Reader\<close> is the sequence of bytes it will still deliver before it ends.
  \<^verbatim>\<open>io.ReadFull\<close> reads exactly \<open>n\<close> bytes: it fails with \<^verbatim>\<open>EOF\<close> when nothing is left
  and with \<^verbatim>\<open>ErrUnexpectedEOF\<close> when the stream ends early.
\<close>

type_synonym reader = "byte list"

definition ReadFull :: "reader \<Rightarrow> nat \<Rightarrow> error + (byte list \<times> reader)" where
  "ReadFull r n =
     (if n \<le> length r then Inr (take n r, drop n r)
      else if r = [] then Inl EOF
      else Inl ErrUnexpectedEOF)"

definition ReadFullFrom :: "Buffer \<Rightarrow> reader \<Rightarrow> nat \<Rightarrow> error + (Buffer \<times> reader)" where
  "ReadFullFrom b r size' =
     (if length b + size' > buf_Size then
        Inl (newError [Str ''out of bound: '', Num (int (length b + size'))])
      else
        (case ReadFull r size' of
           Inl err \<Rightarrow> Inl err
         | Inr (bs, r') \<Rightarrow> Inr (b @ bs, r')))"

section \<open>The addon header codec\<close>

text \<open>
  \<^verbatim>\<open>proto.Marshal\<close> and \<^verbatim>\<open>proto.Unmarshal\<close> belong to the protobuf library; the codec
  takes them as the parameters \<open>marshal\<close> and \<open>unmarshal\<close>. \<^verbatim>\<open>byte(len(bytes))\<close> keeps the
  low eight bits of the length, which is what \<open>of_nat\<close> into an 8-bit word does.
\<close>

definition EncodeHeaderAddons ::
  "(Addons \<Rightarrow> error + byte list) \<Rightarrow> Buffer \<Rightarrow> Addons \<Rightarrow> error + Buffer" where
  "EncodeHeaderAddons marshal buffer addons =
     (if Flow addons = XRV \<or> length (Seed addons) > 0 then
        (case marshal addons of
           Inl err \<Rightarrow> Inl (Base (newError [Str ''failed to marshal addons protobuf value'']) err)
         | Inr bytes \<Rightarrow>
        (case WriteByte buffer (of_nat (length bytes)) of
           Inl err \<Rightarrow> Inl (Base (newError [Str ''failed to write addons protobuf length'']) err)
         | Inr buffer1 \<Rightarrow>
        (case Write buffer1 bytes of
           Inl err \<Rightarrow> Inl (Base (newError [Str ''failed to write addons protobuf value'']) err)
         | Inr buffer2 \<Rightarrow> Inr buffer2)))
      else
        (case WriteByte buffer 0 of
           Inl err \<Rightarrow> Inl (Base (newError [Str ''failed to write addons protobuf length'']) err)
         | Inr buffer1 \<Rightarrow> Inr buffer1))"

text \<open>
  \<^verbatim>\<open>DecodeHeaderAddons\<close> returns the record together with the buffer and the reader as
  it leaves them. \<^verbatim>\<open>buffer.Byte(0)\<close> is read after one byte was read into the cleared
  buffer, so index 0 is in range.
\<close>

definition DecodeHeaderAddons ::
  "(byte list \<Rightarrow> error + Addons) \<Rightarrow> Buffer \<Rightarrow> reader \<Rightarrow> error + (Addons \<times> Buffer \<times> reader)" where
  "DecodeHeaderAddons unmarshal buffer rd =
     (case ReadFullFrom (Clear buffer) rd 1 of
        Inl err \<Rightarrow> Inl (Base (newError [Str ''failed to read addons protobuf length'']) err)
      | Inr (buffer1, rd1) \<Rightarrow>
          (let length' = unat (buffer1 ! 0) in
           if length' \<noteq> 0 then
             (case ReadFullFrom (Clear buffer1) rd1 length' of
                Inl err \<Rightarrow> Inl (Base (newError [Str ''failed to read addons protobuf value'']) err)
              | Inr (buffer2, rd2) \<Rightarrow>
             (case unmarshal buffer2 of
                Inl err \<Rightarrow> Inl (Base (newError [Str ''failed to unmarshal addons protobuf value'']) err)
              | Inr addons \<Rightarrow> Inr (addons, buffer2, rd2)))
           else Inr (new_Addons, buffer1, rd1)))"

section \<open>The binary schema of the addons record\<close>

text \<open>
  Modelled from the spec: the addon header binary format (the generated message code and
  the protobuf library are not under src/). Fields 1 to 7 are Flow (string), Seed (bytes),
  Mode (varint), Duration (string), Padding, Delay and Scheduler (sub-records), written in
  field order in the length-delimited wire format: a key \<open>8 * field + wire type\<close> as a
  base-128 varint, then a varint (wire type 0) or a varint length and that many bytes
  (wire type 2). A field at its zero value and an absent sub-record are not written. The
  fields of a sub-record are numbered in the order the spec lists them. These definitions
  are the concrete serializer and deserializer at which the theorems about the header codec
  are instantiated.
\<close>

fun varint :: "nat \<Rightarrow> byte list" where
  "varint n = (if n < 128 then [of_nat n] else of_nat (128 + n mod 128) # varint (n div 128))"

declare varint.simps [simp del]

definition varintField :: "nat \<Rightarrow> nat \<Rightarrow> byte list" where
  "varintField fld v = (if v = 0 then [] else varint (8 * fld) @ varint v)"

definition bytesField :: "nat \<Rightarrow> byte list \<Rightarrow> byte list" where
  "bytesField fld bs = varint (8 * fld + 2) @ varint (length bs) @ bs"

definition marshal_PaddingConfig :: "PaddingConfig \<Rightarrow> byte list" where
  "marshal_PaddingConfig p =
     varintField 1 (unat (RegularMin p)) @ varintField 2 (unat (RegularMax p)) @
     varintField 3 (unat (LongMin p)) @ varintField 4 (unat (LongMax p))"

definition marshal_DelayConfig :: "DelayConfig \<Rightarrow> byte list" where
  "marshal_DelayConfig d =
     varintField 1 (if IsRandom d then 1 else 0) @ varintField 2 (unat (MinMillis d)) @
     varintField 3 (unat (MaxMillis d))"

definition marshal_SchedulerConfig :: "SchedulerConfig \<Rightarrow> byte list" where
  "marshal_SchedulerConfig c = varintField 1 (unat (TimeoutMillis c))"

definition marshal_Addons :: "Addons \<Rightarrow> error + byte list" where
  "marshal_Addons a = Inr (
     (if Flow a = [] then [] else bytesField 1 (map of_char (Flow a))) @
     (if Seed a = [] then [] else bytesField 2 (Seed a)) @
     varintField 3 (unat (Mode a)) @
     (if Duration a = [] then [] else bytesField 4 (map of_char (Duration a))) @
     (case Padding a of None \<Rightarrow> [] | Some p \<Rightarrow> bytesField 5 (marshal_PaddingConfig p)) @
     (case Delay a of None \<Rightarrow> [] | Some d \<Rightarrow> bytesField 6 (marshal_DelayConfig d)) @
     (case Scheduler a of None \<Rightarrow> [] | Some c \<Rightarrow> bytesField 7 (marshal_SchedulerConfig c)))"

text \<open>
  Reading: a varint, then the fields one after the other. The first argument of
  \<open>get_fields\<close> bounds the number of fields still to be read; a field takes at least two
  bytes, so the length of the input is always enough.
\<close>

fun get_varint :: "byte list \<Rightarrow> (nat \<times> byte list) option" where
  "get_varint [] = None"
| "get_varint (b # bs) =
     (if b < 128 then Some (unat b, bs)
      else (case get_varint bs of
              None \<Rightarrow> None
            | Some (v, rest) \<Rightarrow> Some (unat b - 128 + 128 * v, rest)))"

datatype field = VarintF nat nat | BytesF nat "byte list"

fun get_fields :: "nat \<Rightarrow> byte list \<Rightarrow> field list option" where
  "get_fields fuel [] = Some []"
| "get_fields 0 (b # bs) = None"
| "get_fields (Suc fuel) (b # bs) =
     (case get_varint (b # bs) of
        None \<Rightarrow> None
      | Some (key, r1) \<Rightarrow>
          (case get_varint r1 of
             None \<Rightarrow> None
           | Some (v, r2) \<Rightarrow>
               if key mod 8 = 0 then
                 map_option ((#) (VarintF (key div 8) v)) (get_fields fuel r2)
               else if key mod 8 = 2 \<and> v \<le> length r2 then
                 map_option ((#) (BytesF (key div 8) (take v r2))) (get_fields fuel (drop v r2))
               else None))"

fun set_PaddingConfig :: "field \<Rightarrow> PaddingConfig \<Rightarrow> PaddingConfig" where
  "set_PaddingConfig (VarintF fld v) p =
     (if fld = 1 then p\<lparr>RegularMin := of_nat v\<rparr>
      else if fld = 2 then p\<lparr>RegularMax := of_nat v\<rparr>
      else if fld = 3 then p\<lparr>LongMin := of_nat v\<rparr>
      else if fld = 4 then p\<lparr>LongMax := of_nat v\<rparr>
      else p)"
| "set_PaddingConfig (BytesF fld bs) p = p"

fun set_DelayConfig :: "field \<Rightarrow> DelayConfig \<Rightarrow> DelayConfig" where
  "set_DelayConfig (VarintF fld v) d =
     (if fld = 1 then d\<lparr>IsRandom := (v \<noteq> 0)\<rparr>
      else if fld = 2 then d\<lparr>MinMillis := of_nat v\<rparr>
      else if fld = 3 then d\<lparr>MaxMillis := of_nat v\<rparr>
      else d)"
| "set_DelayConfig (BytesF fld bs) d = d"

fun set_SchedulerConfig :: "field \<Rightarrow> SchedulerConfig \<Rightarrow> SchedulerConfig" where
  "set_SchedulerConfig (VarintF fld v) c =
     (if fld = 1 then c\<lparr>TimeoutMillis := of_nat v\<rparr> else c)"
| "set_SchedulerConfig (BytesF fld bs) c = c"

definition chars_of :: "byte list \<Rightarrow> string" where
  "chars_of bs = map (\<lambda>b. char_of (unat b)) bs"

fun set_Addons :: "field \<Rightarrow> Addons option \<Rightarrow> Addons option" where
  "set_Addons f None = None"
| "set_Addons (VarintF fld v) (Some a) =
     (if fld = 3 then Some (a\<lparr>Mode := of_nat v\<rparr>) else Some a)"
| "set_Addons (BytesF fld bs) (Some a) =
     (if fld = 1 then Some (a\<lparr>Flow := chars_of bs\<rparr>)
      else if fld = 2 then Some (a\<lparr>Seed := bs\<rparr>)
      else if fld = 4 then Some (a\<lparr>Duration := chars_of bs\<rparr>)
      else if fld = 5 then
        (case get_fields (length bs) bs of
           None \<Rightarrow> None
         | Some fs \<Rightarrow> Some (a\<lparr>Padding := Some (fold set_PaddingConfig fs
             (case Padding a of
                None \<Rightarrow> \<lparr>RegularMin = 0, RegularMax = 0, LongMin = 0, LongMax = 0\<rparr>
              | Some p \<Rightarrow> p))\<rparr>))
      else if fld = 6 then
        (case get_fields (length bs) bs of
           None \<Rightarrow> None
         | Some fs \<Rightarrow> Some (a\<lparr>Delay := Some (fold set_DelayConfig fs
             (case Delay a of
                None \<Rightarrow> \<lparr>IsRandom = False, MinMillis = 0, MaxMillis = 0\<rparr>
              | Some d \<Rightarrow> d))\<rparr>))
      else if fld = 7 then
        (case get_fields (length bs) bs of
           None \<Rightarrow> None
         | Some fs \<Rightarrow> Some (a\<lparr>Scheduler := Some (fold set_SchedulerConfig fs
             (case Scheduler a of
                None \<Rightarrow> \<lparr>TimeoutMillis = 0\<rparr>
              | Some c \<Rightarrow> c))\<rparr>))
      else Some a)"

definition unmarshal_Addons :: "byte list \<Rightarrow> error + Addons" where
  "unmarshal_Addons bs =
     (case get_fields (length bs) bs of
        None \<Rightarrow> Inl (External ''proto: cannot parse invalid wire-format data'')
      | Some fs \<Rightarrow>
          (case fold set_Addons fs (Some new_Addons) of
             None \<Rightarrow> Inl (External ''proto: cannot parse invalid wire-format data'')
           | Some a \<Rightarrow> Inr a))"

section \<open>The length-prefixed packet codec\<close>

text \<open>
  The loop of \<^verbatim>\<open>MultiLengthPacketWriter.WriteMultiBuffer\<close>: \<open>mb2Write\<close> is the vector
  built so far; every \<^verbatim>\<open>continue\<close> of the source goes on with it unchanged. Lengths are
  \<^verbatim>\<open>int32\<close> in the source and byte counts of buffers here; \<^verbatim>\<open>byte(length >> 8)\<close> and
  \<^verbatim>\<open>byte(length)\<close> keep eight bits each.
\<close>

fun mlpw_loop :: "MultiBuffer \<Rightarrow> MultiBuffer \<Rightarrow> MultiBuffer" where
  "mlpw_loop [] mb2Write = mb2Write"
| "mlpw_loop (b # mb) mb2Write =
     (let length' = length b in
      if length' = 0 \<or> length' + 2 > buf_Size then mlpw_loop mb mb2Write
      else
        (case WriteByte buf_New (of_nat (length' div 256)) of
           Inl err \<Rightarrow> mlpw_loop mb mb2Write
         | Inr eb1 \<Rightarrow>
        (case WriteByte eb1 (of_nat length') of
           Inl err \<Rightarrow> mlpw_loop mb mb2Write
         | Inr eb2 \<Rightarrow>
        (case Write eb2 b of
           Inl err \<Rightarrow> mlpw_loop mb mb2Write
         | Inr eb3 \<Rightarrow> mlpw_loop mb (mb2Write @ [eb3])))))"

text \<open>
  The embedded \<^verbatim>\<open>buf.Writer\<close> is the parameter \<open>wr\<close>: it takes a multi-buffer and the
  state \<open>w\<close> of whatever lies below and returns the new state or an error.
\<close>

definition MultiLengthPacketWriter_WriteMultiBuffer ::
  "(MultiBuffer \<Rightarrow> 'w \<Rightarrow> error + 'w) \<Rightarrow> 'w \<Rightarrow> MultiBuffer \<Rightarrow> error + 'w" where
  "MultiLengthPacketWriter_WriteMultiBuffer wr w mb =
     (let mb2Write = mlpw_loop mb [] in
      if mb_IsEmpty mb2Write then Inr w
      else wr mb2Write w)"

text \<open>
  \<^verbatim>\<open>LengthPacketWriter\<close> keeps a byte cache between calls; the deferred function empties
  it on every return that follows the length test. The embedded \<^verbatim>\<open>io.Writer\<close> is the
  parameter \<open>wr\<close>.
\<close>

record 'w LengthPacketWriter =
  Writer :: 'w
  cache :: "byte list"

definition NewLengthPacketWriter :: "'w \<Rightarrow> 'w LengthPacketWriter" where
  "NewLengthPacketWriter writer = \<lparr>Writer = writer, cache = []\<rparr>"

definition LengthPacketWriter_WriteMultiBuffer ::
  "(byte list \<Rightarrow> 'w \<Rightarrow> error + 'w) \<Rightarrow> 'w LengthPacketWriter \<Rightarrow> MultiBuffer \<Rightarrow>
     error + 'w LengthPacketWriter" where
  "LengthPacketWriter_WriteMultiBuffer wr w mb =
     (let length' = mb_Len mb in
      if length' = 0 then Inr w
      else
        (let cache1 = cache w @ [of_nat (length' div 256), of_nat length'];
             cache2 = foldl (\<lambda>c b. c @ b) cache1 mb
         in case wr cache2 (Writer w) of
              Inl err \<Rightarrow> Inl (Base (newError [Str ''failed to write a packet'']) err)
            | Inr writer' \<Rightarrow> Inr (w\<lparr>Writer := writer', cache := []\<rparr>)))"

text \<open>
  The loop of \<^verbatim>\<open>LengthPacketReader.ReadMultiBuffer\<close>: \<open>length'\<close> bytes are still to be
  read, \<open>mb\<close> holds the buffers read so far.
\<close>

function lpr_loop :: "nat \<Rightarrow> reader \<Rightarrow> MultiBuffer \<Rightarrow> error + (MultiBuffer \<times> reader)" where
  "lpr_loop length' rd mb =
     (if length' > 0 then
        (let size' = (if length' > buf_Size then buf_Size else length') in
         case ReadFullFrom buf_New rd size' of
           Inl err \<Rightarrow> Inl (Base (newError [Str ''failed to read packet payload'']) err)
         | Inr (b, rd') \<Rightarrow> lpr_loop (length' - size') rd' (mb @ [b]))
      else Inr (mb, rd))"
  by pat_completeness auto
termination
  by (relation "measure (\<lambda>(l, rd, mb). l)") (auto simp: buf_Size_def)

definition LengthPacketReader_ReadMultiBuffer :: "reader \<Rightarrow> error + (MultiBuffer \<times> reader)" where
  "LengthPacketReader_ReadMultiBuffer rd =
     (case ReadFull rd 2 of
        Inl err \<Rightarrow> Inl (Base (newError [Str ''failed to read packet length'']) err)
      | Inr (cache', rd1) \<Rightarrow>
          (let length' = unat (push_bit 8 (ucast (cache' ! 0) :: 32 word) OR ucast (cache' ! 1))
           in lpr_loop length' rd1 []))"

declare lpr_loop.simps [simp del]

text \<open>
  The chunking the spec describes for the reader: the payload cut into pieces of
  \<open>buf_Size\<close> bytes, the last one shorter when the length is no multiple of it.
\<close>

function chunks :: "byte list \<Rightarrow> MultiBuffer" where
  "chunks xs = (if xs = [] then [] else take buf_Size xs # chunks (drop buf_Size xs))"
  by pat_completeness auto
termination
  by (relation "measure length") (auto simp: buf_Size_def)

declare chunks.simps [simp del]

section \<open>The SplitHTTP dialer\<close>

text \<open>
  \<^verbatim>\<open>Dial\<close> up to the connection it returns. The HTTP client belongs to the standard
  library; what it does is an input: whether building the GET request fails
  (\<open>newRequest\<close>), what \<^verbatim>\<open>httpClient.Do\<close> returns (\<open>doResult\<close>: an error or the response),
  and the addresses the \<^verbatim>\<open>GotConn\<close> callback captured, if it ran. A response body is the
  sequence of bytes the server sends before the body ends. The uploader goroutine that
  \<^verbatim>\<open>Dial\<close> starts between the status test and the first read is modelled below, on its
  own.
\<close>

record http_Response =
  StatusCode :: int
  Status :: string
  Body :: reader

type_synonym Addr = string

record splitConn =
  conn_reader :: reader
  remoteAddr :: "Addr option"
  localAddr :: "Addr option"

definition Dial ::
  "error option \<Rightarrow> error + http_Response \<Rightarrow> (Addr \<times> Addr) option \<Rightarrow> error + splitConn" where
  "Dial newRequest doResult gotConn =
     (case newRequest of
        Some err \<Rightarrow> Inl err
      | None \<Rightarrow>
     (case doResult of
        Inl err \<Rightarrow> Inl err
      | Inr downResponse \<Rightarrow>
          if StatusCode downResponse \<noteq> 200 then
            Inl (newError [Str ''invalid status code on download:'', Str (Status downResponse)])
          else
            (case ReadFull (Body downResponse) 2 of
               Inl err \<Rightarrow> Inl (newError [Str ''failed to read initial response''])
             | Inr (trashHeader, body) \<Rightarrow>
                 Inr \<lparr>conn_reader = body,
                      remoteAddr = map_option fst gotConn,
                      localAddr = map_option snd gotConn\<rparr>)))"

subsection \<open>The upload half of a session\<close>

text \<open>
  The producer goroutine of \<^verbatim>\<open>Dial\<close> and the uploader goroutines it starts, as a state
  and the events that change it. The producer is the only one to touch
  \<^verbatim>\<open>requestCounter\<close> (an \<^verbatim>\<open>int64\<close>); \<^verbatim>\<open>requestsLimiter\<close> is the number of free
  permits of the semaphore.

  \<^item> \<open>PipeRead chunk\<close>: \<^verbatim>\<open>uploadPipeReader.ReadMultiBuffer()\<close> returns a chunk; the
    producer goes on to wait for a permit.
  \<^item> \<open>PipeClosed\<close>: the read returns an error and the producer leaves its loop.
  \<^item> \<open>Acquire\<close>: \<^verbatim>\<open><-requestsLimiter.Wait()\<close> receives a permit, which needs one to be
    free; the producer builds the URL from the counter (the model keeps the number that
    \<^verbatim>\<open>strconv.FormatInt\<close> prints), adds one to the counter and starts the uploader
    goroutine for the chunk.
  \<^item> \<open>TaskExit i outcome\<close>: the \<open>i\<close>-th uploader in flight returns, on one of its four
    paths; the deferred \<^verbatim>\<open>requestsLimiter.Signal()\<close> gives the permit back on each.

  A schedule is a list of events; an event that cannot happen in a state (the producer is
  blocked, no such uploader) has no successor state.
\<close>

text \<open>
  Modelled from the spec: the counting semaphore (the package
  \<^verbatim>\<open>common/signal/semaphore\<close> is not under src/). It is sized to
  \<^verbatim>\<open>maxConcurrentUploads\<close> permits; receiving from \<^verbatim>\<open>Wait()\<close> takes a permit and blocks
  while none is free; \<^verbatim>\<open>Signal()\<close> gives one back.
\<close>

datatype outcome =
    NewRequestFailed error
  | DoFailed error
  | BadStatus string
  | Uploaded

record upload =
  seq :: int
  chunk :: MultiBuffer

record session =
  requestsLimiter :: nat
  requestCounter :: "64 word"
  waiting :: "MultiBuffer option"
  producerDone :: bool
  inflight :: "upload list"
  posts :: "int list"
  uploadLog :: "error list"

datatype event =
    PipeRead MultiBuffer
  | PipeClosed
  | Acquire
  | TaskExit nat outcome

text \<open>The state when the producer goroutine starts: \<^verbatim>\<open>semaphore.New(maxConcurrentUploads)\<close>.\<close>

definition startSession :: "nat \<Rightarrow> session" where
  "startSession maxConcurrentUploads =
     \<lparr>requestsLimiter = maxConcurrentUploads, requestCounter = 0, waiting = None,
      producerDone = False, inflight = [], posts = [], uploadLog = []\<rparr>"

text \<open>What an uploader writes to the log on the path it returns by.\<close>

fun uploader :: "outcome \<Rightarrow> error list" where
  "uploader (NewRequestFailed err) = [Base (newError [Str ''failed to send upload'']) err]"
| "uploader (DoFailed err) = [Base (newError [Str ''failed to send upload'']) err]"
| "uploader (BadStatus status) =
     [newError [Str ''failed to send upload, bad status code:'', Str status]]"
| "uploader Uploaded = []"

fun step :: "session \<Rightarrow> event \<Rightarrow> session option" where
  "step s (PipeRead c) =
     (if \<not> producerDone s \<and> waiting s = None then Some (s\<lparr>waiting := Some c\<rparr>) else None)"
| "step s PipeClosed =
     (if \<not> producerDone s \<and> waiting s = None then Some (s\<lparr>producerDone := True\<rparr>) else None)"
| "step s Acquire =
     (case waiting s of
        None \<Rightarrow> None
      | Some c \<Rightarrow>
          if requestsLimiter s = 0 then None
          else Some (s\<lparr>requestsLimiter := requestsLimiter s - 1,
                       requestCounter := requestCounter s + 1,
                       waiting := None,
                       inflight := inflight s @ [\<lparr>seq = sint (requestCounter s), chunk = c\<rparr>],
                       posts := posts s @ [sint (requestCounter s)]\<rparr>))"
| "step s (TaskExit i oc) =
     (if i < length (inflight s) then
        Some (s\<lparr>requestsLimiter := requestsLimiter s + 1,
                 inflight := take i (inflight s) @ drop (Suc i) (inflight s),
                 uploadLog := uploadLog s @ uploader oc\<rparr>)
      else None)"

fun run :: "session \<Rightarrow> event list \<Rightarrow> session option" where
  "run s [] = Some s"
| "run s (e # es) = (case step s e of None \<Rightarrow> None | Some s' \<Rightarrow> run s' es)"

section \<open>The connection-forward pipeline\<close>

text \<open>
  \<^verbatim>\<open>forwardConnection\<close> by what it does, in order: log entries, the interrupts and the
  deferred \<^verbatim>\<open>cancel()\<close> and \<^verbatim>\<open>conn.Close()\<close>, which run last, in that order, on a return and
  on a panic alike. The dispatcher is a nil-able interface value: \<open>None\<close> or a function
  from the destination to what \<^verbatim>\<open>Dispatch\<close> returns, a pair of a link pointer (\<open>None\<close> is
  nil) and an error. Copying between the connection and the link is the platform's
  (\<^verbatim>\<open>buf.Copy\<close> under \<^verbatim>\<open>task.Run\<close>): the parameter \<open>task_Run\<close> gives the error, if any,
  with which the two halves end on a link. Contexts, the access-log entry, the session
  tags and the inactivity timer feed the dispatcher and the copy and are not modelled.
  The first use of the link is
  \<^verbatim>\<open>link.Writer\<close> in the call of \<^verbatim>\<open>task.OnSuccess\<close>; on a nil link it is a nil-pointer
  dereference, a panic.
\<close>

datatype severity = AtError | AtDebug

datatype action =
    WriteToLog severity error
  | Interrupt_Reader
  | Interrupt_Writer
  | cancel
  | conn_Close

datatype ending = Returned | NilPointerPanic

definition forwardConnection ::
  "('dest \<Rightarrow> 'link option \<times> error option) option \<Rightarrow> 'dest \<Rightarrow> ('link \<Rightarrow> error option) \<Rightarrow>
     action list \<times> ending" where
  "forwardConnection dispatcher dest task_Run =
     (case dispatcher of
        None \<Rightarrow> ([WriteToLog AtError (newError [Str ''unexpected: dispatcher == nil''])], Returned)
      | Some d \<Rightarrow>
          (let (link, err) = d dest;
               logged = (case err of
                           Some e \<Rightarrow> [WriteToLog AtError (Base (newError [Str ''dispatch connection'']) e)]
                         | None \<Rightarrow> [])
           in case link of
                None \<Rightarrow> (logged @ [cancel, conn_Close], NilPointerPanic)
              | Some l \<Rightarrow>
                  (case task_Run l of
                     Some e \<Rightarrow>
                       (logged @ [Interrupt_Reader, Interrupt_Writer,
                          WriteToLog AtDebug (Base (newError [Str ''connection ends'']) e),
                          cancel, conn_Close], Returned)
                   | None \<Rightarrow> (logged @ [cancel, conn_Close], Returned))))"

section \<open>Recording writers and a sample record\<close>

text \<open>
  Two writers to instantiate the parameters with: an \<^verbatim>\<open>io.Writer\<close> that appends to an
  in-memory byte stream, and a \<^verbatim>\<open>buf.Writer\<close> that records every multi-buffer it is
  handed. Both always succeed.
\<close>

definition stream_Write :: "byte list \<Rightarrow> reader \<Rightarrow> error + reader" where
  "stream_Write p s = Inr (s @ p)"

definition record_Write :: "MultiBuffer \<Rightarrow> MultiBuffer list \<Rightarrow> error + MultiBuffer list" where
  "record_Write mb w = Inr (w @ [mb])"

text \<open>
  The record a client sends for the vision flow after \<^verbatim>\<open>PopulateSeed\<close> (with the enum
  constant taken as 1), and its 53 bytes in the binary schema.
\<close>

definition vision_seed_addons :: Addons where
  "vision_seed_addons = \<lparr>Flow = XRV, Seed = [1], Mode = 1, Duration = ''0-8'',
     Padding = Some \<lparr>RegularMin = 0, RegularMax = 256, LongMin = 900, LongMax = 1400\<rparr>,
     Delay = Some \<lparr>IsRandom = True, MinMillis = 100, MaxMillis = 500\<rparr>,
     Scheduler = Some \<lparr>TimeoutMillis = 600\<rparr>\<rparr>"

definition vision_seed_bytes :: "byte list" where
  "vision_seed_bytes = [10, 16, 120, 116, 108, 115, 45, 114, 112, 114, 120, 45, 118, 105, 115,
      105, 111, 110, 18, 1, 1, 24, 1, 34, 3, 48, 45, 56, 42, 9, 16, 128, 2,
      24, 132, 7, 32, 248, 10, 50, 7, 8, 1, 16, 100, 24, 244, 3, 58, 3, 8,
      216, 4]"

section \<open>When CheckSeed succeeds\<close>

lemma checkPadding_None:
  "checkPadding p q = None \<longleftrightarrow> p = q"
  by (cases p; cases q) (auto simp: checkPadding_def)

lemma checkDelay_None:
  "checkDelay p q = None \<longleftrightarrow> p = q"
  by (cases p; cases q) (auto simp: checkDelay_def)

lemma checkScheduler_None:
  "checkScheduler p q = None \<longleftrightarrow> p = q"
  by (cases p; cases q) (auto simp: checkScheduler_def)

lemma CheckSeed_None:
  "CheckSeed a b = None \<longleftrightarrow>
     Seed a = Seed b \<and> Mode a = Mode b \<and> Duration a = Duration b \<and>
     Padding a = Padding b \<and> Delay a = Delay b \<and> Scheduler a = Scheduler b"
  by (simp add: CheckSeed_def option.case_eq_if checkPadding_None checkDelay_None
      checkScheduler_None)

section \<open>Properties of the addon header codec\<close>

lemma WriteByte_room: "length b < buf_Size \<Longrightarrow> WriteByte b v = Inr (b @ [v])"
  by (simp add: WriteByte_def IsFull_def)

lemma Write_room: "length b + length data \<le> buf_Size \<Longrightarrow> Write b data = Inr (b @ data)"
  by (simp add: Write_def)

lemma ReadFull_append: "length bs = n \<Longrightarrow> ReadFull (bs @ rest) n = Inr (bs, rest)"
  by (simp add: ReadFull_def)

lemma ReadFullFrom_append:
  "length bs = n \<Longrightarrow> length b + n \<le> buf_Size \<Longrightarrow> ReadFullFrom b (bs @ rest) n = Inr (b @ bs, rest)"
  by (simp add: ReadFullFrom_def ReadFull_append)

lemma unat_byte_of_nat: "n \<le> 255 \<Longrightarrow> unat (of_nat n :: byte) = n"
  by (simp add: unat_of_nat take_bit_nat_eq_self_iff)

lemma EncodeHeaderAddons_some:
  assumes "Flow a = XRV \<or> Seed a \<noteq> []" "marshal a = Inr bs" "length buffer + 1 + length bs \<le> buf_Size"
  shows "EncodeHeaderAddons marshal buffer a = Inr (buffer @ of_nat (length bs) # bs)"
  using assms by (auto simp: EncodeHeaderAddons_def WriteByte_room Write_room)

lemma EncodeHeaderAddons_none:
  assumes "\<not> (Flow a = XRV \<or> Seed a \<noteq> [])" "length buffer < buf_Size"
  shows "EncodeHeaderAddons marshal buffer a = Inr (buffer @ [0])"
  using assms by (auto simp: EncodeHeaderAddons_def WriteByte_room)

lemma DecodeHeaderAddons_zero:
  "DecodeHeaderAddons unmarshal buffer (0 # rest) = Inr (new_Addons, [0], rest)"
  using ReadFullFrom_append [of "[0]" 1 "[]" rest]
  by (simp add: DecodeHeaderAddons_def Clear_def buf_Size_def)

lemma DecodeHeaderAddons_some:
  assumes "0 < length bs" "length bs \<le> 255"
  shows "DecodeHeaderAddons unmarshal buffer (of_nat (length bs) # bs @ rest) =
     (case unmarshal bs of
        Inl err \<Rightarrow> Inl (Base (newError [Str ''failed to unmarshal addons protobuf value'']) err)
      | Inr a \<Rightarrow> Inr (a, bs, rest))"
proof -
  have 1: "ReadFullFrom [] (of_nat (length bs) # bs @ rest) (Suc 0) = Inr ([of_nat (length bs)], bs @ rest)"
    using ReadFullFrom_append [of "[of_nat (length bs)]" "Suc 0" "[]" "bs @ rest"]
    by (simp add: buf_Size_def)
  have 2: "ReadFullFrom [] (bs @ rest) (length bs) = Inr (bs, rest)"
    using ReadFullFrom_append [of bs "length bs" "[]" rest] assms
    by (simp add: buf_Size_def)
  show ?thesis
    using assms by (simp add: DecodeHeaderAddons_def Clear_def 1 2 unat_byte_of_nat)
qed

lemma EncodeHeaderAddons_error_iff:
  "(\<exists>x. EncodeHeaderAddons marshal buffer a = Inl x) \<longleftrightarrow>
     ((Flow a = XRV \<or> length (Seed a) > 0) \<and> (\<exists>e. marshal a = Inl e)) \<or>
     buf_Size \<le> length buffer"
  by (cases "marshal a")
    (auto simp: EncodeHeaderAddons_def WriteByte_def IsFull_def Write_def split: sum.splits)

text \<open>
  Claim C1, as the code has it. For a record whose Flow is \<open>xtls-rprx-vision\<close> or whose Seed
  is not empty, whose serialization succeeds with the bytes \<open>bs\<close>, and a buffer with room
  for them, \<^verbatim>\<open>EncodeHeaderAddons\<close> appends one length byte and then \<open>bs\<close>, and succeeds;
  the length byte is the size of \<open>bs\<close> modulo 256, so it is the size itself only up to 255.
  A failed serialization is returned as an error (second part). For every other record it
  appends exactly one zero byte and succeeds (third part). No size is checked: an error is
  returned exactly when the serialization is called and fails or the buffer is full (last
  part).
\<close>

theorem EncodeHeaderAddons_output:
  "((Flow a = XRV \<or> length (Seed a) > 0) \<and> marshal a = Inr bs \<and>
      length buffer + 1 + length bs \<le> buf_Size \<longrightarrow>
        EncodeHeaderAddons marshal buffer a = Inr (buffer @ [of_nat (length bs)] @ bs) \<and>
        unat (of_nat (length bs) :: byte) = length bs mod 256) \<and>
   ((Flow a = XRV \<or> length (Seed a) > 0) \<and> marshal a = Inl e \<longrightarrow>
        EncodeHeaderAddons marshal buffer a =
          Inl (Base (newError [Str ''failed to marshal addons protobuf value'']) e)) \<and>
   (\<not> (Flow a = XRV \<or> length (Seed a) > 0) \<and> length buffer < buf_Size \<longrightarrow>
        EncodeHeaderAddons marshal buffer a = Inr (buffer @ [0])) \<and>
   ((\<exists>x. EncodeHeaderAddons marshal buffer a = Inl x) \<longleftrightarrow>
      ((Flow a = XRV \<or> length (Seed a) > 0) \<and> (\<exists>e'. marshal a = Inl e')) \<or>
      buf_Size \<le> length buffer)"
proof (intro conjI impI)
  assume h: "(Flow a = XRV \<or> length (Seed a) > 0) \<and> marshal a = Inr bs \<and>
      length buffer + 1 + length bs \<le> buf_Size"
  then show "EncodeHeaderAddons marshal buffer a = Inr (buffer @ [of_nat (length bs)] @ bs)"
    using EncodeHeaderAddons_some [of a marshal bs buffer] by simp
  show "unat (of_nat (length bs) :: byte) = length bs mod 256"
    by (simp add: unat_of_nat)
next
  assume "(Flow a = XRV \<or> length (Seed a) > 0) \<and> marshal a = Inl e"
  then show "EncodeHeaderAddons marshal buffer a =
      Inl (Base (newError [Str ''failed to marshal addons protobuf value'']) e)"
    by (simp add: EncodeHeaderAddons_def)
next
  assume "\<not> (Flow a = XRV \<or> length (Seed a) > 0) \<and> length buffer < buf_Size"
  then show "EncodeHeaderAddons marshal buffer a = Inr (buffer @ [0])"
    using EncodeHeaderAddons_none [of a buffer marshal] by simp
next
  show "(\<exists>x. EncodeHeaderAddons marshal buffer a = Inl x) \<longleftrightarrow>
      ((Flow a = XRV \<or> length (Seed a) > 0) \<and> (\<exists>e'. marshal a = Inl e')) \<or>
      buf_Size \<le> length buffer"
    by (rule EncodeHeaderAddons_error_iff)
qed

lemmas marshal_defs = marshal_Addons_def bytesField_def varintField_def varint.simps
  marshal_PaddingConfig_def marshal_DelayConfig_def marshal_SchedulerConfig_def new_Addons_def

text \<open>
  The theorem at the record with only the vision flow set (18 serialized bytes) and at the
  empty record, on a fresh buffer.
\<close>

theorem EncodeHeaderAddons_output_witness:
  "EncodeHeaderAddons marshal_Addons buf_New (new_Addons\<lparr>Flow := XRV\<rparr>) =
     Inr [18, 10, 16, 120, 116, 108, 115, 45, 114, 112, 114, 120, 45, 118, 105, 115, 105, 111, 110] \<and>
   EncodeHeaderAddons marshal_Addons buf_New new_Addons = Inr [0]"
proof -
  have m: "marshal_Addons (new_Addons\<lparr>Flow := XRV\<rparr>) =
      Inr [10, 16, 120, 116, 108, 115, 45, 114, 112, 114, 120, 45, 118, 105, 115, 105, 111, 110]"
    by (simp add: marshal_defs XRV_def)
  show ?thesis
    using EncodeHeaderAddons_output [of "new_Addons\<lparr>Flow := XRV\<rparr>" marshal_Addons
        "[10, 16, 120, 116, 108, 115, 45, 114, 112, 114, 120, 45, 118, 105, 115, 105, 111, 110]"
        buf_New EOF]
      EncodeHeaderAddons_output [of new_Addons marshal_Addons "[]" buf_New EOF]
    by (simp add: m buf_New_def buf_Size_def) (simp add: new_Addons_def XRV_def)
qed

text \<open>
  Claim C1 as stated fails: a record with a 300-byte Seed serializes to 303 bytes, more
  than 255, and \<^verbatim>\<open>EncodeHeaderAddons\<close> returns no error; it writes the length byte
  \<open>47 = 303 mod 256\<close> and the 303 bytes.
\<close>

theorem EncodeHeaderAddons_no_size_error:
  "marshal_Addons (new_Addons\<lparr>Seed := replicate 300 7\<rparr>) = Inr (18 # 172 # 2 # replicate 300 7) \<and>
   length (18 # 172 # 2 # replicate 300 (7 :: byte)) = 303 \<and>
   EncodeHeaderAddons marshal_Addons buf_New (new_Addons\<lparr>Seed := replicate 300 7\<rparr>) =
     Inr (47 # 18 # 172 # 2 # replicate 300 7)"
proof -
  have m: "marshal_Addons (new_Addons\<lparr>Seed := replicate 300 7\<rparr>) = Inr (18 # 172 # 2 # replicate 300 7)"
    by (simp add: marshal_defs)
  have s: "Seed (new_Addons\<lparr>Seed := replicate 300 7\<rparr>) \<noteq> []"
    by simp
  have "EncodeHeaderAddons marshal_Addons buf_New (new_Addons\<lparr>Seed := replicate 300 7\<rparr>) =
      Inr (buf_New @ of_nat (length (18 # 172 # 2 # replicate 300 (7 :: byte))) # 18 # 172 # 2 # replicate 300 7)"
    by (rule EncodeHeaderAddons_some) (simp_all add: m s buf_New_def buf_Size_def)
  then show ?thesis
    by (simp add: m buf_New_def)
qed

text \<open>
  Claim C3, as the code has it. For a record \<open>a\<close> whose Flow is \<open>xtls-rprx-vision\<close> or whose
  Seed is not empty, whose serialization \<open>bs\<close> is 1 to 255 bytes long and is inverted by the
  deserializer, \<^verbatim>\<open>DecodeHeaderAddons\<close> applied to what \<^verbatim>\<open>EncodeHeaderAddons\<close> appended (followed
  by any further bytes \<open>rest\<close>) returns \<open>a\<close> and leaves \<open>rest\<close> unread. For every other record
  the encoded form is the single byte 0, and decoding it returns the empty record with
  whatever deserializer \<open>u\<close>: none is called.
\<close>

theorem addon_codec_round_trip:
  "((Flow a = XRV \<or> length (Seed a) > 0) \<and> marshal a = Inr bs \<and> 0 < length bs \<and>
      length bs \<le> 255 \<and> unmarshal bs = Inr a \<and> length buffer + 1 + length bs \<le> buf_Size \<longrightarrow>
        EncodeHeaderAddons marshal buffer a = Inr (buffer @ of_nat (length bs) # bs) \<and>
        DecodeHeaderAddons unmarshal buffer' (of_nat (length bs) # bs @ rest) = Inr (a, bs, rest)) \<and>
   (\<not> (Flow a = XRV \<or> length (Seed a) > 0) \<and> length buffer < buf_Size \<longrightarrow>
        EncodeHeaderAddons marshal buffer a = Inr (buffer @ [0]) \<and>
        (\<forall>u. DecodeHeaderAddons u buffer' (0 # rest) = Inr (new_Addons, [0], rest)))"
proof (intro conjI impI allI)
  assume h: "(Flow a = XRV \<or> length (Seed a) > 0) \<and> marshal a = Inr bs \<and> 0 < length bs \<and>
      length bs \<le> 255 \<and> unmarshal bs = Inr a \<and> length buffer + 1 + length bs \<le> buf_Size"
  then show "EncodeHeaderAddons marshal buffer a = Inr (buffer @ of_nat (length bs) # bs)"
    using EncodeHeaderAddons_some [of a marshal bs buffer] by simp
  from h show "DecodeHeaderAddons unmarshal buffer' (of_nat (length bs) # bs @ rest) = Inr (a, bs, rest)"
    using DecodeHeaderAddons_some [of bs unmarshal buffer' rest] by simp
next
  assume "\<not> (Flow a = XRV \<or> length (Seed a) > 0) \<and> length buffer < buf_Size"
  then show "EncodeHeaderAddons marshal buffer a = Inr (buffer @ [0])"
    using EncodeHeaderAddons_none [of a buffer marshal] by simp
next
  fix u
  show "DecodeHeaderAddons u buffer' (0 # rest) = Inr (new_Addons, [0], rest)"
    by (rule DecodeHeaderAddons_zero)
qed

lemma marshal_vision_seed: "marshal_Addons vision_seed_addons = Inr vision_seed_bytes"
  by (simp add: vision_seed_addons_def vision_seed_bytes_def marshal_defs XRV_def)

lemma unmarshal_vision_seed: "unmarshal_Addons vision_seed_bytes = Inr vision_seed_addons"
  by code_simp

text \<open>
  The theorem at the populated vision record with the serializer and the deserializer of the
  binary schema, and at the empty record.
\<close>

theorem addon_codec_round_trip_witness:
  "EncodeHeaderAddons marshal_Addons buf_New vision_seed_addons = Inr (53 # vision_seed_bytes) \<and>
   DecodeHeaderAddons unmarshal_Addons buf_New (53 # vision_seed_bytes) =
     Inr (vision_seed_addons, vision_seed_bytes, []) \<and>
   EncodeHeaderAddons marshal_Addons buf_New new_Addons = Inr [0] \<and>
   DecodeHeaderAddons unmarshal_Addons buf_New [0] = Inr (new_Addons, [0], [])"
proof -
  have l: "length vision_seed_bytes = 53"
    by (simp add: vision_seed_bytes_def)
  have f: "Flow vision_seed_addons = XRV"
    by (simp add: vision_seed_addons_def)
  have n: "Flow new_Addons \<noteq> XRV" "Seed new_Addons = []"
    by (simp_all add: new_Addons_def XRV_def)
  show ?thesis
    using addon_codec_round_trip [of vision_seed_addons marshal_Addons vision_seed_bytes
        unmarshal_Addons buf_New buf_New "[]"]
      addon_codec_round_trip [of new_Addons marshal_Addons "[]" unmarshal_Addons buf_New buf_New "[]"]
    by (simp add: marshal_vision_seed unmarshal_vision_seed l f n buf_New_def buf_Size_def)
qed

text \<open>
  Claim C3 as stated fails: a record with a 253-byte Seed serializes to 256 bytes, the
  length byte wraps to 0, and decoding the output returns the empty record, which is not
  the record that was encoded.
\<close>

theorem addon_codec_round_trip_fails_at_256:
  "marshal_Addons (new_Addons\<lparr>Seed := replicate 253 7\<rparr>) = Inr (18 # 253 # 1 # replicate 253 7) \<and>
   length (18 # 253 # 1 # replicate 253 (7 :: byte)) = 256 \<and>
   EncodeHeaderAddons marshal_Addons buf_New (new_Addons\<lparr>Seed := replicate 253 7\<rparr>) =
     Inr (0 # 18 # 253 # 1 # replicate 253 7) \<and>
   DecodeHeaderAddons unmarshal_Addons buf_New (0 # 18 # 253 # 1 # replicate 253 7) =
     Inr (new_Addons, [0], 18 # 253 # 1 # replicate 253 7) \<and>
   new_Addons \<noteq> new_Addons\<lparr>Seed := replicate 253 7\<rparr>"
proof -
  have m: "marshal_Addons (new_Addons\<lparr>Seed := replicate 253 7\<rparr>) = Inr (18 # 253 # 1 # replicate 253 7)"
    by (simp add: marshal_defs)
  have s: "Seed (new_Addons\<lparr>Seed := replicate 253 7\<rparr>) \<noteq> []"
    by simp
  have e: "EncodeHeaderAddons marshal_Addons buf_New (new_Addons\<lparr>Seed := replicate 253 7\<rparr>) =
      Inr (buf_New @ of_nat (length (18 # 253 # 1 # replicate 253 (7 :: byte))) # 18 # 253 # 1 # replicate 253 7)"
    by (rule EncodeHeaderAddons_some) (simp_all add: m s buf_New_def buf_Size_def)
  have d: "DecodeHeaderAddons unmarshal_Addons buf_New (0 # 18 # 253 # 1 # replicate 253 7) =
     Inr (new_Addons, [0], 18 # 253 # 1 # replicate 253 7)"
    by (rule DecodeHeaderAddons_zero)
  have n: "new_Addons \<noteq> new_Addons\<lparr>Seed := replicate 253 7\<rparr>"
    by (simp add: new_Addons_def)
  from e d show ?thesis
    by (simp add: m n buf_New_def)
qed

section \<open>Symmetry and strictness of CheckSeed, and what PopulateSeed sets\<close>

lemma checkPadding_fails:
  "checkPadding p q \<noteq> None \<longleftrightarrow>
     (p = None) \<noteq> (q = None) \<or>
     (\<exists>x y. p = Some x \<and> q = Some y \<and>
        (RegularMin x \<noteq> RegularMin y \<or> RegularMax x \<noteq> RegularMax y \<or>
         LongMin x \<noteq> LongMin y \<or> LongMax x \<noteq> LongMax y))"
  by (cases p; cases q) (auto simp: checkPadding_def)

lemma checkDelay_fails:
  "checkDelay p q \<noteq> None \<longleftrightarrow>
     (p = None) \<noteq> (q = None) \<or>
     (\<exists>x y. p = Some x \<and> q = Some y \<and>
        (IsRandom x \<noteq> IsRandom y \<or> MinMillis x \<noteq> MinMillis y \<or> MaxMillis x \<noteq> MaxMillis y))"
  by (cases p; cases q) (auto simp: checkDelay_def)

lemma checkScheduler_fails:
  "checkScheduler p q \<noteq> None \<longleftrightarrow>
     (p = None) \<noteq> (q = None) \<or>
     (\<exists>x y. p = Some x \<and> q = Some y \<and> TimeoutMillis x \<noteq> TimeoutMillis y)"
  by (cases p; cases q) (auto simp: checkScheduler_def)

lemma CheckSeed_fails:
  "CheckSeed a b \<noteq> None \<longleftrightarrow>
     Seed a \<noteq> Seed b \<or> Mode a \<noteq> Mode b \<or> Duration a \<noteq> Duration b \<or>
     checkPadding (Padding a) (Padding b) \<noteq> None \<or>
     checkDelay (Delay a) (Delay b) \<noteq> None \<or>
     checkScheduler (Scheduler a) (Scheduler b) \<noteq> None"
  by (simp add: CheckSeed_def option.case_eq_if)

lemma CheckSeed_sym: "CheckSeed a b = None \<longleftrightarrow> CheckSeed b a = None"
  by (auto simp: CheckSeed_None)

text \<open>
  Claim C4. \<^verbatim>\<open>CheckSeed(a, b)\<close> succeeds exactly when \<^verbatim>\<open>CheckSeed(b, a)\<close> does, and it
  fails exactly when Seed, Mode or Duration differ, or exactly one of the two has a
  Padding, a Delay or a Scheduler sub-record, or both have the sub-record and it differs
  in one of the compared fields.
\<close>

theorem CheckSeed_symmetric_strict:
  "(CheckSeed a b = None \<longleftrightarrow> CheckSeed b a = None) \<and>
   (CheckSeed a b \<noteq> None \<longleftrightarrow>
      Seed a \<noteq> Seed b \<or> Mode a \<noteq> Mode b \<or> Duration a \<noteq> Duration b \<or>
      (Padding a = None) \<noteq> (Padding b = None) \<or>
      (Delay a = None) \<noteq> (Delay b = None) \<or>
      (Scheduler a = None) \<noteq> (Scheduler b = None) \<or>
      (\<exists>x y. Padding a = Some x \<and> Padding b = Some y \<and>
         (RegularMin x \<noteq> RegularMin y \<or> RegularMax x \<noteq> RegularMax y \<or>
          LongMin x \<noteq> LongMin y \<or> LongMax x \<noteq> LongMax y)) \<or>
      (\<exists>x y. Delay a = Some x \<and> Delay b = Some y \<and>
         (IsRandom x \<noteq> IsRandom y \<or> MinMillis x \<noteq> MinMillis y \<or>
          MaxMillis x \<noteq> MaxMillis y)) \<or>
      (\<exists>x y. Scheduler a = Some x \<and> Scheduler b = Some y \<and>
         TimeoutMillis x \<noteq> TimeoutMillis y))"
proof
  show "CheckSeed a b = None \<longleftrightarrow> CheckSeed b a = None"
    by (rule CheckSeed_sym)
next
  show "CheckSeed a b \<noteq> None \<longleftrightarrow>
      Seed a \<noteq> Seed b \<or> Mode a \<noteq> Mode b \<or> Duration a \<noteq> Duration b \<or>
      (Padding a = None) \<noteq> (Padding b = None) \<or>
      (Delay a = None) \<noteq> (Delay b = None) \<or>
      (Scheduler a = None) \<noteq> (Scheduler b = None) \<or>
      (\<exists>x y. Padding a = Some x \<and> Padding b = Some y \<and>
         (RegularMin x \<noteq> RegularMin y \<or> RegularMax x \<noteq> RegularMax y \<or>
          LongMin x \<noteq> LongMin y \<or> LongMax x \<noteq> LongMax y)) \<or>
      (\<exists>x y. Delay a = Some x \<and> Delay b = Some y \<and>
         (IsRandom x \<noteq> IsRandom y \<or> MinMillis x \<noteq> MinMillis y \<or>
          MaxMillis x \<noteq> MaxMillis y)) \<or>
      (\<exists>x y. Scheduler a = Some x \<and> Scheduler b = Some y \<and>
         TimeoutMillis x \<noteq> TimeoutMillis y)"
    unfolding CheckSeed_fails checkPadding_fails checkDelay_fails checkScheduler_fails
    by (intro iffI; elim disjE; simp)
qed

text \<open>
  The theorem at a pair where only one side has a Scheduler (both orders fail) and at a
  pair that differs in Flow alone (the check succeeds).
\<close>

theorem CheckSeed_symmetric_strict_witness:
  "CheckSeed (new_Addons\<lparr>Scheduler := Some \<lparr>TimeoutMillis = 600\<rparr>\<rparr>) new_Addons \<noteq> None \<and>
   CheckSeed new_Addons (new_Addons\<lparr>Scheduler := Some \<lparr>TimeoutMillis = 600\<rparr>\<rparr>) \<noteq> None \<and>
   CheckSeed (new_Addons\<lparr>Flow := XRV\<rparr>) new_Addons = None"
proof -
  let ?a = "new_Addons\<lparr>Scheduler := Some \<lparr>TimeoutMillis = 600\<rparr>\<rparr>"
  let ?c = "new_Addons\<lparr>Flow := XRV\<rparr>"
  note ab = CheckSeed_symmetric_strict [of ?a new_Addons]
  note cb = CheckSeed_symmetric_strict [of ?c new_Addons]
  have 1: "CheckSeed ?a new_Addons \<noteq> None"
    by (subst conjunct2 [OF ab]) (simp add: new_Addons_def)
  have 2: "CheckSeed new_Addons ?a \<noteq> None"
    using 1 conjunct1 [OF ab] by simp
  have 3: "\<not> (CheckSeed ?c new_Addons \<noteq> None)"
    by (subst conjunct2 [OF cb]) (simp add: new_Addons_def)
  from 1 2 3 show ?thesis by blast
qed

text \<open>
  Claim C10. With an empty seed string \<^verbatim>\<open>PopulateSeed\<close> leaves the record unchanged; with
  a non-empty one it sets Seed, Mode, Duration, Padding, Delay and Scheduler to the fixed
  values, whatever the seed's content, and keeps Flow; so two records populated with
  non-empty seeds satisfy \<^verbatim>\<open>CheckSeed\<close>.
\<close>

theorem PopulateSeed_effect:
  "PopulateSeed ppd [] a = a \<and>
   (seed \<noteq> [] \<longrightarrow>
      PopulateSeed ppd seed a =
        a\<lparr>Seed := [1], Mode := ppd, Duration := ''0-8'',
          Padding := Some \<lparr>RegularMin = 0, RegularMax = 256, LongMin = 900, LongMax = 1400\<rparr>,
          Delay := Some \<lparr>IsRandom = True, MinMillis = 100, MaxMillis = 500\<rparr>,
          Scheduler := Some \<lparr>TimeoutMillis = 600\<rparr>\<rparr>) \<and>
   (seed \<noteq> [] \<and> seed' \<noteq> [] \<longrightarrow>
      CheckSeed (PopulateSeed ppd seed a) (PopulateSeed ppd seed' b) = None)"
  by (simp add: PopulateSeed_def CheckSeed_None)

text \<open>
  The theorem at two different non-empty seeds and two records that differ in Flow.
\<close>

theorem PopulateSeed_effect_witness:
  "PopulateSeed 1 ''abc'' (new_Addons\<lparr>Flow := XRV\<rparr>) =
     \<lparr>Flow = XRV, Seed = [1], Mode = 1, Duration = ''0-8'',
       Padding = Some \<lparr>RegularMin = 0, RegularMax = 256, LongMin = 900, LongMax = 1400\<rparr>,
       Delay = Some \<lparr>IsRandom = True, MinMillis = 100, MaxMillis = 500\<rparr>,
       Scheduler = Some \<lparr>TimeoutMillis = 600\<rparr>\<rparr> \<and>
   CheckSeed (PopulateSeed 1 ''abc'' (new_Addons\<lparr>Flow := XRV\<rparr>)) (PopulateSeed 1 ''z'' new_Addons) = None"
proof -
  note t = PopulateSeed_effect [of 1 "new_Addons\<lparr>Flow := XRV\<rparr>" "''abc''" "''z''" new_Addons]
  have 1: "PopulateSeed 1 ''abc'' (new_Addons\<lparr>Flow := XRV\<rparr>) =
     \<lparr>Flow = XRV, Seed = [1], Mode = 1, Duration = ''0-8'',
       Padding = Some \<lparr>RegularMin = 0, RegularMax = 256, LongMin = 900, LongMax = 1400\<rparr>,
       Delay = Some \<lparr>IsRandom = True, MinMillis = 100, MaxMillis = 500\<rparr>,
       Scheduler = Some \<lparr>TimeoutMillis = 600\<rparr>\<rparr>"
    by (subst mp [OF conjunct1 [OF conjunct2 [OF t]]]) (simp_all add: new_Addons_def)
  have 2: "CheckSeed (PopulateSeed 1 ''abc'' (new_Addons\<lparr>Flow := XRV\<rparr>)) (PopulateSeed 1 ''z'' new_Addons) = None"
    by (rule mp [OF conjunct2 [OF conjunct2 [OF t]]]) simp
  from 1 2 show ?thesis by (rule conjI)
qed

section \<open>Properties of the length-prefixed packet codec\<close>

lemma buf_Size_pos: "0 < buf_Size"
  by (simp add: buf_Size_def)

lemma chunks_Nil [simp]: "chunks [] = []"
  by (simp add: chunks.simps)

lemma concat_chunks: "concat (chunks xs) = xs"
  by (induction xs rule: chunks.induct) (subst chunks.simps, simp)

lemma length_chunks: "length (chunks xs) = (length xs + buf_Size - 1) div buf_Size"
proof (induction xs rule: chunks.induct)
  case (1 xs)
  show ?case
  proof (cases "xs = []")
    case True
    then show ?thesis using buf_Size_pos by simp
  next
    case False
    then have ih: "length (chunks (drop buf_Size xs)) = (length xs - buf_Size + buf_Size - 1) div buf_Size"
      using 1 by simp
    have pos: "0 < length xs" using False by simp
    have eq: "length xs + buf_Size - 1 = (length xs - 1) + buf_Size"
      using pos by linarith
    have e: "(length xs + buf_Size - 1) div buf_Size = Suc ((length xs - 1) div buf_Size)"
      by (subst eq) (simp add: buf_Size_def)
    show ?thesis
    proof (cases "length xs \<le> buf_Size")
      case True
      then have "length xs - 1 < buf_Size"
        using pos by linarith
      then have "(length xs - 1) div buf_Size = 0"
        by simp
      with True False e show ?thesis
        by (subst chunks.simps) simp
    next
      case gt: False
      then have "length xs - buf_Size + buf_Size - 1 = length xs - 1" by linarith
      with e show ?thesis
        using False ih by (subst chunks.simps) simp
    qed
  qed
qed

lemma nth_chunks:
  "i < length (chunks xs) \<Longrightarrow> chunks xs ! i = take buf_Size (drop (i * buf_Size) xs)"
proof (induction xs arbitrary: i rule: chunks.induct)
  case (1 xs)
  show ?case
  proof (cases "xs = []")
    case True
    with 1 show ?thesis by simp
  next
    case False
    then have c: "chunks xs = take buf_Size xs # chunks (drop buf_Size xs)"
      by (subst chunks.simps) simp
    show ?thesis
    proof (cases i)
      case 0
      then show ?thesis by (simp add: c)
    next
      case (Suc j)
      with "1.prems" c have "j < length (chunks (drop buf_Size xs))" by simp
      then have "chunks (drop buf_Size xs) ! j = take buf_Size (drop (j * buf_Size) (drop buf_Size xs))"
        using "1.IH" False by simp
      then show ?thesis
        by (simp add: c Suc add.commute)
    qed
  qed
qed

lemma ReadFullFrom_New:
  "n \<le> length rd \<Longrightarrow> n \<le> buf_Size \<Longrightarrow> ReadFullFrom buf_New rd n = Inr (take n rd, drop n rd)"
  by (simp add: ReadFullFrom_def ReadFull_def buf_New_def)

lemma lpr_loop_chunks:
  "n \<le> length rd \<Longrightarrow> lpr_loop n rd mb = Inr (mb @ chunks (take n rd), drop n rd)"
proof (induction n rd mb rule: lpr_loop.induct)
  case (1 n rd mb)
  show ?case
  proof (cases "0 < n")
    case False
    then show ?thesis by (subst lpr_loop.simps) simp
  next
    case True
    define s where "s = (if n > buf_Size then buf_Size else n)"
    have s: "s \<le> n" "s \<le> buf_Size" "s \<le> length rd" "s = min buf_Size n"
      using "1.prems" by (auto simp: s_def)
    have rf: "ReadFullFrom buf_New rd s = Inr (take s rd, drop s rd)"
      using s by (simp add: ReadFullFrom_New)
    have "lpr_loop (n - s) (drop s rd) (mb @ [take s rd]) =
        Inr ((mb @ [take s rd]) @ chunks (take (n - s) (drop s rd)), drop (n - s) (drop s rd))"
      using "1.IH" [OF True s_def rf refl] "1.prems" s by simp
    moreover have "take n rd \<noteq> []"
      using True "1.prems" by auto
    then have "chunks (take n rd) = take s rd # chunks (take (n - s) (drop s rd))"
      using s by (subst chunks.simps) (auto simp: s_def drop_take min_def)
    moreover have "lpr_loop n rd mb = lpr_loop (n - s) (drop s rd) (mb @ [take s rd])"
      using True rf by (subst lpr_loop.simps) (simp add: s_def Let_def)
    ultimately show ?thesis
      using s by simp
  qed
qed

lemma or_add: "b < 2 ^ n \<Longrightarrow> push_bit n (a::nat) OR b = push_bit n a + b"
proof -
  assume b: "b < 2 ^ n"
  have "push_bit n a + take_bit n b = push_bit n a OR take_bit n b"
    by (rule disjunctive_add) (auto simp: bit_simps)
  with b show ?thesis by (simp add: take_bit_nat_eq_self)
qed

lemma be16: "unat (push_bit 8 (ucast (a::byte) :: 32 word) OR ucast (b::byte)) = 256 * unat a + unat b"
proof -
  have a: "unat a < 256" and b: "unat b < 2 ^ 8"
    using unsigned_less [of a] unsigned_less [of b] by simp_all
  have ua: "unat (ucast a :: 32 word) = unat a" and ub: "unat (ucast b :: 32 word) = unat b"
    using a b by (simp_all add: unsigned_ucast_eq take_bit_nat_eq_self_iff)
  have "unat (push_bit 8 (ucast a :: 32 word)) = unat a * 256"
    using a by (simp add: push_bit_eq_mult unat_word_ariths ua)
  then have "unat (push_bit 8 (ucast a :: 32 word) OR ucast b) = push_bit 8 (unat a) OR unat b"
    by (simp only: unsigned_or_eq ub push_bit_eq_mult) simp
  also have "\<dots> = push_bit 8 (unat a) + unat b"
    using b by (rule or_add)
  finally show ?thesis by (simp add: push_bit_eq_mult)
qed

lemma header_value:
  assumes "n \<le> 65535"
  shows "256 * unat (of_nat (n div 256) :: byte) + unat (of_nat n :: byte) = n"
proof -
  from assms have "n div 256 \<le> 255" by simp
  then have "unat (of_nat (n div 256) :: byte) = n div 256"
    by (rule unat_byte_of_nat)
  moreover have "unat (of_nat n :: byte) = n mod 256"
    by (simp add: unat_of_nat)
  ultimately show ?thesis by simp
qed

lemma foldl_append_concat: "foldl (\<lambda>c b. c @ b) acc mb = acc @ concat mb"
  by (induction mb arbitrary: acc) simp_all

lemma mb_Len_concat: "mb_Len mb = length (concat mb)"
  by (simp add: mb_Len_def length_concat)

lemma LengthPacketWriter_written:
  assumes "0 < mb_Len mb"
  shows "LengthPacketWriter_WriteMultiBuffer wr (NewLengthPacketWriter u) mb =
     (case wr ([of_nat (mb_Len mb div 256), of_nat (mb_Len mb)] @ concat mb) u of
        Inl err \<Rightarrow> Inl (Base (newError [Str ''failed to write a packet'']) err)
      | Inr u' \<Rightarrow> Inr (NewLengthPacketWriter u'))"
  using assms
  by (simp add: LengthPacketWriter_WriteMultiBuffer_def NewLengthPacketWriter_def
      foldl_append_concat Let_def split: sum.splits)

lemma LengthPacketReader_reads:
  assumes "length p \<le> 65535"
  shows "LengthPacketReader_ReadMultiBuffer
           ([of_nat (length p div 256), of_nat (length p)] @ p @ rest) = Inr (chunks p, rest)"
proof -
  have rf: "ReadFull ([of_nat (length p div 256), of_nat (length p)] @ p @ rest) 2 =
      Inr ([of_nat (length p div 256), of_nat (length p)], p @ rest)"
    by (rule ReadFull_append) simp
  have loop: "lpr_loop (length p) (p @ rest) [] = Inr ([] @ chunks (take (length p) (p @ rest)),
      drop (length p) (p @ rest))"
    by (rule lpr_loop_chunks) simp
  have len: "unat (push_bit 8 (ucast (of_nat (length p div 256) :: byte) :: 32 word) OR
      ucast (of_nat (length p) :: byte)) = length p"
    using header_value [OF assms] by (simp only: be16)
  show ?thesis
    unfolding LengthPacketReader_ReadMultiBuffer_def rf
    by (simp add: len loop)
qed

text \<open>
  Claim C2. For a multi-buffer of total length \<open>L\<close> with \<open>0 < L \<le> 65535\<close> whose buffers hold at
  most \<open>buf_Size\<close> bytes, \<^verbatim>\<open>LengthPacketWriter.WriteMultiBuffer\<close> hands the underlying writer
  one record: the two bytes of \<open>L\<close>, high byte first, then the concatenated payload. 
  \<^verbatim>\<open>LengthPacketReader.ReadMultiBuffer\<close> on these bytes (followed by any further bytes
  \<open>rest\<close>) returns a multi-buffer with the same byte sequence, in
  \<open>\<lceil>L / buf_Size\<rceil>\<close> buffers, the \<open>i\<close>-th holding the \<open>i\<close>-th run of \<open>buf_Size\<close> payload bytes,
  and leaves \<open>rest\<close> unread.
\<close>

theorem length_packet_round_trip:
  assumes "0 < mb_Len mb" and "mb_Len mb \<le> 65535" and "\<forall>b \<in> set mb. length b \<le> buf_Size"
  shows "\<exists>hi lo mb'.
     hi = of_nat (mb_Len mb div 256) \<and> lo = of_nat (mb_Len mb) \<and>
     256 * unat hi + unat lo = mb_Len mb \<and>
     LengthPacketWriter_WriteMultiBuffer wr (NewLengthPacketWriter u) mb =
       (case wr ([hi, lo] @ concat mb) u of
          Inl err \<Rightarrow> Inl (Base (newError [Str ''failed to write a packet'']) err)
        | Inr u' \<Rightarrow> Inr (NewLengthPacketWriter u')) \<and>
     LengthPacketReader_ReadMultiBuffer ([hi, lo] @ concat mb @ rest) = Inr (mb', rest) \<and>
     concat mb' = concat mb \<and>
     length mb' = (mb_Len mb + buf_Size - 1) div buf_Size \<and>
     (\<forall>i < length mb'. mb' ! i = take buf_Size (drop (i * buf_Size) (concat mb)))"
proof (intro exI conjI)
  show "256 * unat (of_nat (mb_Len mb div 256) :: byte) + unat (of_nat (mb_Len mb) :: byte) = mb_Len mb"
    using assms(2) by (rule header_value)
  show "LengthPacketWriter_WriteMultiBuffer wr (NewLengthPacketWriter u) mb =
       (case wr ([of_nat (mb_Len mb div 256), of_nat (mb_Len mb)] @ concat mb) u of
          Inl err \<Rightarrow> Inl (Base (newError [Str ''failed to write a packet'']) err)
        | Inr u' \<Rightarrow> Inr (NewLengthPacketWriter u'))"
    using assms(1) by (rule LengthPacketWriter_written)
  show "LengthPacketReader_ReadMultiBuffer
      ([of_nat (mb_Len mb div 256), of_nat (mb_Len mb)] @ concat mb @ rest) =
      Inr (chunks (concat mb), rest)"
    using assms(2) LengthPacketReader_reads [of "concat mb" rest]
    by (simp add: mb_Len_concat)
  show "concat (chunks (concat mb)) = concat mb"
    by (rule concat_chunks)
  show "length (chunks (concat mb)) = (mb_Len mb + buf_Size - 1) div buf_Size"
    by (simp add: length_chunks mb_Len_concat)
  show "\<forall>i < length (chunks (concat mb)).
      chunks (concat mb) ! i = take buf_Size (drop (i * buf_Size) (concat mb))"
    by (simp add: nth_chunks)
qed simp_all

text \<open>
  The theorem at the multi-buffer \<open>[[1, 2], [3]]\<close> written to an in-memory stream.
\<close>

theorem length_packet_round_trip_witness:
  "LengthPacketWriter_WriteMultiBuffer stream_Write (NewLengthPacketWriter []) [[1, 2], [3]] =
     Inr (NewLengthPacketWriter [0, 3, 1, 2, 3]) \<and>
   LengthPacketReader_ReadMultiBuffer [0, 3, 1, 2, 3] = Inr ([[1, 2, 3]], [])"
proof -
  have l: "mb_Len [[1, 2], [3 :: byte]] = 3"
    by (simp add: mb_Len_def)
  obtain hi lo :: byte and mb' where
    h: "hi = of_nat (mb_Len [[1, 2], [3 :: byte]] div 256)" "lo = of_nat (mb_Len [[1, 2], [3 :: byte]])"
    and w: "LengthPacketWriter_WriteMultiBuffer stream_Write (NewLengthPacketWriter []) [[1, 2], [3]] =
       (case stream_Write ([hi, lo] @ concat [[1, 2], [3]]) [] of
          Inl err \<Rightarrow> Inl (Base (newError [Str ''failed to write a packet'']) err)
        | Inr u' \<Rightarrow> Inr (NewLengthPacketWriter u'))"
    and r: "LengthPacketReader_ReadMultiBuffer ([hi, lo] @ concat [[1, 2], [3]] @ []) = Inr (mb', [])"
    and c: "concat mb' = concat [[1, 2], [3]]"
    and n: "length mb' = (mb_Len [[1, 2], [3 :: byte]] + buf_Size - 1) div buf_Size"
    using length_packet_round_trip [of "[[1, 2], [3]]" stream_Write "[]" "[]"]
    by (auto simp: l buf_Size_def)
  from n have "length mb' = 1"
    by (simp add: l buf_Size_def)
  with c have "mb' = [[1, 2, 3]]"
    by (cases mb') simp_all
  with h w r show ?thesis
    by (simp add: l stream_Write_def)
qed

lemma mlpw_loop_filter:
  "mlpw_loop mb acc =
     acc @ map (\<lambda>b. [of_nat (length b div 256), of_nat (length b)] @ b)
             (filter (\<lambda>b. \<not> (length b = 0 \<or> length b + 2 > buf_Size)) mb)"
proof (induction mb arbitrary: acc)
  case Nil
  show ?case by simp
next
  case (Cons b mb)
  show ?case
  proof (cases "length b = 0 \<or> length b + 2 > buf_Size")
    case True
    then show ?thesis using Cons by (simp add: Let_def)
  next
    case False
    have 1: "WriteByte buf_New (of_nat (length b div 256)) = Inr [of_nat (length b div 256)]"
      by (simp add: WriteByte_def IsFull_def buf_New_def buf_Size_def)
    have 2: "WriteByte [of_nat (length b div 256)] (of_nat (length b)) =
        Inr [of_nat (length b div 256), of_nat (length b)]"
      by (simp add: WriteByte_def IsFull_def buf_Size_def)
    have 3: "Write [of_nat (length b div 256), of_nat (length b)] b =
        Inr ([of_nat (length b div 256), of_nat (length b)] @ b)"
      using False by (intro Write_room) simp
    from False show ?thesis
      by (simp add: Let_def 1 2 3 Cons)
  qed
qed

lemma mb_IsEmpty_frames:
  "mb_IsEmpty (map (\<lambda>b. [hi b, lo b] @ b) xs) \<longleftrightarrow> xs = []"
  by (cases xs) (simp_all add: mb_IsEmpty_def)

text \<open>
  Claim C7. \<^verbatim>\<open>MultiLengthPacketWriter.WriteMultiBuffer\<close> drops exactly the buffers \<open>b\<close> with
  \<open>length b = 0\<close> or \<open>length b + 2 > buf_Size\<close>; the others reach the underlying writer in one
  call, in their order, each as a buffer that holds the two bytes of its length, high byte
  first, and then its bytes; when none is kept the underlying writer is not called and the
  call succeeds.
\<close>

theorem MultiLengthPacketWriter_filters:
  "MultiLengthPacketWriter_WriteMultiBuffer wr w mb =
     (if filter (\<lambda>b. \<not> (length b = 0 \<or> length b + 2 > buf_Size)) mb = [] then Inr w
      else wr (map (\<lambda>b. [of_nat (length b div 256), of_nat (length b)] @ b)
                 (filter (\<lambda>b. \<not> (length b = 0 \<or> length b + 2 > buf_Size)) mb)) w) \<and>
   (\<forall>b :: Buffer. \<not> (length b = 0 \<or> length b + 2 > buf_Size) \<longrightarrow>
      256 * unat (of_nat (length b div 256) :: byte) + unat (of_nat (length b) :: byte) = length b)"
proof -
  have 1: "MultiLengthPacketWriter_WriteMultiBuffer wr w mb =
     (if filter (\<lambda>b. \<not> (length b = 0 \<or> length b + 2 > buf_Size)) mb = [] then Inr w
      else wr (map (\<lambda>b. [of_nat (length b div 256), of_nat (length b)] @ b)
                 (filter (\<lambda>b. \<not> (length b = 0 \<or> length b + 2 > buf_Size)) mb)) w)"
    by (simp only: MultiLengthPacketWriter_WriteMultiBuffer_def mlpw_loop_filter Let_def
        append_Nil mb_IsEmpty_frames)
  have 2: "256 * unat (of_nat (length b div 256) :: byte) + unat (of_nat (length b) :: byte) = length b"
    if "\<not> (length b = 0 \<or> length b + 2 > buf_Size)" for b :: "byte list"
  proof -
    from that have "length b \<le> 65535"
      by (simp add: buf_Size_def)
    then show ?thesis
      by (rule header_value)
  qed
  from 2 have "\<forall>b :: Buffer. \<not> (length b = 0 \<or> length b + 2 > buf_Size) \<longrightarrow>
      256 * unat (of_nat (length b div 256) :: byte) + unat (of_nat (length b) :: byte) = length b"
    by (intro allI impI)
  with 1 show ?thesis
    by (rule conjI)
qed

text \<open>
  The theorem at a multi-buffer with an empty buffer, two small ones and one of 8191 bytes,
  and at one where nothing is kept.
\<close>

theorem MultiLengthPacketWriter_filters_witness:
  "MultiLengthPacketWriter_WriteMultiBuffer record_Write []
      [[], [7, 8, 9], replicate 8191 0, [5]] = Inr [[[0, 3, 7, 8, 9], [0, 1, 5]]] \<and>
   MultiLengthPacketWriter_WriteMultiBuffer record_Write [] [[], replicate 8191 0] = Inr [] \<and>
   256 * unat (of_nat (length [7, 8, 9 :: byte] div 256) :: byte) +
     unat (of_nat (length [7, 8, 9 :: byte]) :: byte) = length [7, 8, 9 :: byte]"
proof -
  note a = MultiLengthPacketWriter_filters [of record_Write "[]" "[[], [7, 8, 9], replicate 8191 0, [5]]"]
  note b = MultiLengthPacketWriter_filters [of record_Write "[]" "[[], replicate 8191 0]"]
  have 1: "MultiLengthPacketWriter_WriteMultiBuffer record_Write []
      [[], [7, 8, 9], replicate 8191 0, [5]] = Inr [[[0, 3, 7, 8, 9], [0, 1, 5]]]"
    by (subst conjunct1 [OF a]) (simp add: buf_Size_def record_Write_def)
  have 2: "MultiLengthPacketWriter_WriteMultiBuffer record_Write [] [[], replicate 8191 0] = Inr []"
    by (subst conjunct1 [OF b]) (simp add: buf_Size_def)
  have 3: "256 * unat (of_nat (length [7, 8, 9 :: byte] div 256) :: byte) +
     unat (of_nat (length [7, 8, 9 :: byte]) :: byte) = length [7, 8, 9 :: byte]"
    by (rule mp [OF spec [OF conjunct2 [OF a]]]) (simp add: buf_Size_def)
  from 1 2 3 show ?thesis by blast
qed

section \<open>Properties of the SplitHTTP dialer\<close>

lemma sint_counter: "k < 2 ^ 63 \<Longrightarrow> sint (of_nat k :: 64 word) = int k"
  by (simp add: signed_of_nat signed_take_bit_int_eq_self)

lemma run_invariant:
  assumes "run s evs = Some s'" and "P s"
    and "\<And>t e t'. step t e = Some t' \<Longrightarrow> P t \<Longrightarrow> P t'"
  shows "P s'"
  using assms(1,2)
proof (induction evs arbitrary: s)
  case Nil
  then show ?case by simp
next
  case (Cons e evs)
  then obtain t where t: "step s e = Some t" "run t evs = Some s'"
    by (auto split: option.splits)
  with Cons.prems have "P t"
    by (auto intro: assms(3))
  with t Cons.IH show ?case by blast
qed

lemma counted_step:
  assumes "step t e = Some t'"
    and "requestCounter t = of_nat (length (posts t)) \<and>
      (\<forall>i < length (posts t). posts t ! i = sint (of_nat i :: 64 word))"
  shows "requestCounter t' = of_nat (length (posts t')) \<and>
      (\<forall>i < length (posts t'). posts t' ! i = sint (of_nat i :: 64 word))"
  using assms
  by (cases e) (auto simp: nth_append less_Suc_eq split: if_splits option.splits)

lemma counted_run:
  assumes "run (startSession n) evs = Some s"
  shows "requestCounter s = of_nat (length (posts s)) \<and>
      (\<forall>i < length (posts s). posts s ! i = sint (of_nat i :: 64 word))"
  using assms
  by (rule run_invariant) (simp add: startSession_def, rule counted_step)

lemma permits_step:
  "step t e = Some t' \<Longrightarrow> length (inflight t) + requestsLimiter t = n \<Longrightarrow>
     length (inflight t') + requestsLimiter t' = n"
  by (cases e) (auto split: if_splits option.splits)

lemma permits_run:
  "run (startSession n) evs = Some s \<Longrightarrow> length (inflight s) + requestsLimiter s = n"
  by (erule run_invariant [where P = "\<lambda>s. length (inflight s) + requestsLimiter s = n"])
    (simp_all add: startSession_def permits_step)

text \<open>
  Claim C5. When the download GET is answered with a status other than 200, \<^verbatim>\<open>Dial\<close>
  returns no connection but an error that carries the received status text; when the
  status is 200 and the body ends before two bytes, it returns no connection but the error
  "failed to read initial response"; the two errors differ. When both tests pass, the
  reader of the returned connection is the body after its first two bytes.
\<close>

theorem Dial_download_checks:
  "(StatusCode r \<noteq> 200 \<longrightarrow>
      Dial None (Inr r) g =
        Inl (newError [Str ''invalid status code on download:'', Str (Status r)])) \<and>
   (StatusCode r = 200 \<and> length (Body r) < 2 \<longrightarrow>
      Dial None (Inr r) g = Inl (newError [Str ''failed to read initial response''])) \<and>
   (StatusCode r = 200 \<and> 2 \<le> length (Body r) \<longrightarrow>
      (\<exists>c. Dial None (Inr r) g = Inr c \<and> conn_reader c = drop 2 (Body r))) \<and>
   newError [Str ''invalid status code on download:'', Str (Status r)] \<noteq>
     newError [Str ''failed to read initial response'']"
  by (auto simp: Dial_def ReadFull_def)

text \<open>
  The theorem at a 404 response, at a 200 response with a one-byte body, and at a 200
  response whose body is "ok" followed by "hello".
\<close>

theorem Dial_download_checks_witness:
  "Dial None (Inr \<lparr>StatusCode = 404, Status = ''404 Not Found'', Body = []\<rparr>) None =
     Inl (newError [Str ''invalid status code on download:'', Str ''404 Not Found'']) \<and>
   Dial None (Inr \<lparr>StatusCode = 200, Status = ''200 OK'', Body = [111]\<rparr>) None =
     Inl (newError [Str ''failed to read initial response'']) \<and>
   Dial None (Inr \<lparr>StatusCode = 200, Status = ''200 OK'',
       Body = [111, 107, 104, 101, 108, 108, 111]\<rparr>) None =
     Inr \<lparr>conn_reader = [104, 101, 108, 108, 111], remoteAddr = None, localAddr = None\<rparr>"
proof -
  note a = Dial_download_checks [of "\<lparr>StatusCode = 404, Status = ''404 Not Found'', Body = []\<rparr>" None]
  note b = Dial_download_checks [of "\<lparr>StatusCode = 200, Status = ''200 OK'', Body = [111]\<rparr>" None]
  note c = Dial_download_checks [of "\<lparr>StatusCode = 200, Status = ''200 OK'',
       Body = [111, 107, 104, 101, 108, 108, 111]\<rparr>" None]
  have 1: "Dial None (Inr \<lparr>StatusCode = 404, Status = ''404 Not Found'', Body = []\<rparr>) None =
     Inl (newError [Str ''invalid status code on download:'', Str ''404 Not Found''])"
    using conjunct1 [OF a] by simp
  have 2: "Dial None (Inr \<lparr>StatusCode = 200, Status = ''200 OK'', Body = [111]\<rparr>) None =
     Inl (newError [Str ''failed to read initial response''])"
    using conjunct1 [OF conjunct2 [OF b]] by simp
  obtain cn where cn: "Dial None (Inr \<lparr>StatusCode = 200, Status = ''200 OK'',
       Body = [111, 107, 104, 101, 108, 108, 111]\<rparr>) None = Inr cn"
      "conn_reader cn = [104, 101, 108, 108, 111]"
    using conjunct1 [OF conjunct2 [OF conjunct2 [OF c]]] by auto
  then have 3: "Dial None (Inr \<lparr>StatusCode = 200, Status = ''200 OK'',
       Body = [111, 107, 104, 101, 108, 108, 111]\<rparr>) None =
     Inr \<lparr>conn_reader = [104, 101, 108, 108, 111], remoteAddr = None, localAddr = None\<rparr>"
    by (auto simp: Dial_def split: if_splits sum.splits prod.splits)
  from 1 2 3 show ?thesis by blast
qed

text \<open>
  Claim C6. The request counter of a session starts at 0; the producer attaches its value
  to the POST it launches and adds exactly 1, and nothing else changes it. So after any
  schedule the seq values of the POSTs launched so far are \<open>0, 1, 2, \<dots>\<close> in launch order,
  all distinct. The counter is an \<^verbatim>\<open>int64\<close>: the statement is for sessions of at most
  \<open>2 ^ 63\<close> POSTs, before it can wrap.
\<close>

theorem upload_seq_prefix:
  "requestCounter (startSession n) = 0 \<and> posts (startSession n) = [] \<and>
   (step s Acquire = Some s' \<longrightarrow>
      posts s' = posts s @ [sint (requestCounter s)] \<and>
      requestCounter s' = requestCounter s + 1 \<and>
      (\<exists>c. inflight s' = inflight s @ [\<lparr>seq = sint (requestCounter s), chunk = c\<rparr>])) \<and>
   (e \<noteq> Acquire \<and> step s e = Some s' \<longrightarrow>
      posts s' = posts s \<and> requestCounter s' = requestCounter s) \<and>
   (run (startSession n) evs = Some t \<and> length (posts t) \<le> 2 ^ 63 \<longrightarrow>
      posts t = map int [0..<length (posts t)] \<and> distinct (posts t))"
proof (intro conjI impI)
  assume "step s Acquire = Some s'"
  then show "posts s' = posts s @ [sint (requestCounter s)]"
    and "requestCounter s' = requestCounter s + 1"
    and "\<exists>c. inflight s' = inflight s @ [\<lparr>seq = sint (requestCounter s), chunk = c\<rparr>]"
    by (auto split: option.splits if_splits)
next
  assume "e \<noteq> Acquire \<and> step s e = Some s'"
  then show "posts s' = posts s" and "requestCounter s' = requestCounter s"
    by (cases e; auto split: if_splits)+
next
  assume a: "run (startSession n) evs = Some t \<and> length (posts t) \<le> 2 ^ 63"
  then have "\<forall>i < length (posts t). posts t ! i = sint (of_nat i :: 64 word)"
    using counted_run [of n evs t] by simp
  then have "\<forall>i < length (posts t). posts t ! i = int i"
    using a by (auto simp: sint_counter)
  then show p: "posts t = map int [0..<length (posts t)]"
    by (intro nth_equalityI) simp_all
  show "distinct (posts t)"
    by (subst p) (simp add: distinct_map inj_on_def)
qed (simp_all add: startSession_def)

text \<open>
  The theorem at a schedule with two permits and three chunks, the first upload finishing
  before the third is launched.
\<close>

theorem upload_seq_prefix_witness:
  "run (startSession 2)
     [PipeRead [[1]], Acquire, PipeRead [[2]], Acquire, TaskExit 0 Uploaded, PipeRead [[3]], Acquire,
      PipeClosed] =
     Some \<lparr>requestsLimiter = 0, requestCounter = 3, waiting = None, producerDone = True,
       inflight = [\<lparr>seq = 1, chunk = [[2]]\<rparr>, \<lparr>seq = 2, chunk = [[3]]\<rparr>],
       posts = [0, 1, 2], uploadLog = []\<rparr> \<and>
   [0, 1, 2] = map int [0..<length [0, 1, 2 :: int]]"
proof -
  let ?evs = "[PipeRead [[1]], Acquire, PipeRead [[2]], Acquire, TaskExit 0 Uploaded, PipeRead [[3]],
      Acquire, PipeClosed]"
  let ?t = "\<lparr>requestsLimiter = 0, requestCounter = 3, waiting = None, producerDone = True,
       inflight = [\<lparr>seq = 1, chunk = [[2]]\<rparr>, \<lparr>seq = 2, chunk = [[3]]\<rparr>],
       posts = [0, 1, 2], uploadLog = []\<rparr>"
  have r: "run (startSession 2) ?evs = Some ?t"
    by (simp add: startSession_def)
  have "posts ?t = map int [0..<length (posts ?t)]"
    by (rule conjunct1 [OF mp [OF conjunct2 [OF conjunct2 [OF conjunct2 [OF conjunct2
      [OF upload_seq_prefix [of 2 "startSession 2" "startSession 2" Acquire ?evs ?t]]]]]]]) (rule conjI [OF r], simp)
  then have "[0, 1, 2] = map int [0..<length [0, 1, 2 :: int]]"
    by simp
  with r show ?thesis by (rule conjI)
qed

text \<open>
  Claim C9. After any schedule of a session started with \<open>n\<close> permits, the uploaders in
  flight and the free permits add up to \<open>n\<close>, so at most \<open>n\<close> uploaders are in flight. An
  uploader is launched only by \<open>Acquire\<close>, which needs a free permit and takes it; an
  uploader that returns gives its permit back on every one of its paths; reading from the
  pipe neither launches nor releases.
\<close>

theorem upload_concurrency_bound:
  "(run (startSession n) evs = Some t \<longrightarrow>
      length (inflight t) \<le> n \<and> length (inflight t) + requestsLimiter t = n) \<and>
   (step s Acquire = Some s' \<longrightarrow>
      0 < requestsLimiter s \<and> requestsLimiter s' = requestsLimiter s - 1 \<and>
      length (inflight s') = length (inflight s) + 1) \<and>
   (step s (TaskExit i oc) = Some s' \<longrightarrow>
      requestsLimiter s' = requestsLimiter s + 1 \<and>
      length (inflight s') + 1 = length (inflight s)) \<and>
   (step s (PipeRead c) = Some s' \<or> step s PipeClosed = Some s' \<longrightarrow>
      requestsLimiter s' = requestsLimiter s \<and> inflight s' = inflight s) \<and>
   (requestsLimiter s = 0 \<longrightarrow> step s Acquire = None)"
proof (intro conjI impI)
  assume "run (startSession n) evs = Some t"
  then have "length (inflight t) + requestsLimiter t = n"
    by (rule permits_run)
  then show "length (inflight t) \<le> n" and "length (inflight t) + requestsLimiter t = n"
    by simp_all
next
  assume "step s Acquire = Some s'"
  then show "0 < requestsLimiter s" and "requestsLimiter s' = requestsLimiter s - 1"
    and "length (inflight s') = length (inflight s) + 1"
    by (auto split: option.splits if_splits)
next
  assume "step s (TaskExit i oc) = Some s'"
  then show "requestsLimiter s' = requestsLimiter s + 1"
    and "length (inflight s') + 1 = length (inflight s)"
    by (auto split: if_splits)
next
  assume "step s (PipeRead c) = Some s' \<or> step s PipeClosed = Some s'"
  then show "requestsLimiter s' = requestsLimiter s" and "inflight s' = inflight s"
    by (auto split: if_splits)
next
  assume "requestsLimiter s = 0"
  then show "step s Acquire = None"
    by (simp split: option.splits)
qed

text \<open>
  The theorem at a schedule with two permits: the third chunk is launched only after an
  upload has failed with a bad status and released its permit; without that exit the third
  \<open>Acquire\<close> cannot happen.
\<close>

theorem upload_concurrency_bound_witness:
  "run (startSession 2)
     [PipeRead [[1]], Acquire, PipeRead [[2]], Acquire, PipeRead [[3]],
      TaskExit 0 (BadStatus ''500 Internal Server Error''), Acquire] =
     Some \<lparr>requestsLimiter = 0, requestCounter = 3, waiting = None, producerDone = False,
       inflight = [\<lparr>seq = 1, chunk = [[2]]\<rparr>, \<lparr>seq = 2, chunk = [[3]]\<rparr>],
       posts = [0, 1, 2],
       uploadLog = [newError [Str ''failed to send upload, bad status code:'',
         Str ''500 Internal Server Error'']]\<rparr> \<and>
   run (startSession 2) [PipeRead [[1]], Acquire, PipeRead [[2]], Acquire, PipeRead [[3]], Acquire] = None \<and>
   length [\<lparr>seq = 1, chunk = [[2 :: byte]]\<rparr>, \<lparr>seq = 2, chunk = [[3]]\<rparr>] \<le> (2 :: nat)"
proof -
  let ?evs = "[PipeRead [[1]], Acquire, PipeRead [[2]], Acquire, PipeRead [[3]],
      TaskExit 0 (BadStatus ''500 Internal Server Error''), Acquire]"
  let ?t = "\<lparr>requestsLimiter = 0, requestCounter = 3, waiting = None, producerDone = False,
       inflight = [\<lparr>seq = 1, chunk = [[2]]\<rparr>, \<lparr>seq = 2, chunk = [[3]]\<rparr>],
       posts = [0, 1, 2],
       uploadLog = [newError [Str ''failed to send upload, bad status code:'',
         Str ''500 Internal Server Error'']]\<rparr>"
  have r: "run (startSession 2) ?evs = Some ?t"
    by (simp add: startSession_def)
  have b: "run (startSession 2) [PipeRead [[1]], Acquire, PipeRead [[2]], Acquire, PipeRead [[3]], Acquire] = None"
    by (simp add: startSession_def)
  have "length (inflight ?t) \<le> 2"
    using upload_concurrency_bound [of 2 ?evs ?t "startSession 2" "startSession 2" 0 Uploaded "[]"] r
    by blast
  with r b show ?thesis by simp
qed

section \<open>The connection-forward pipeline after a dispatch error\<close>

text \<open>
  Claim C8. When \<^verbatim>\<open>Dispatch\<close> returns an error, \<^verbatim>\<open>forwardConnection\<close> logs it at error level
  and then does exactly what it does for the same link without an error: no test guards
  the link. With a nil link this is a nil-pointer panic; with a link the two halves run on
  it and the function ends as they end.
\<close>

theorem forwardConnection_dispatch_error:
  "d dest = (link, Some e) \<longrightarrow>
     (\<exists>acts fin.
        forwardConnection (Some (\<lambda>x. (link, None))) dest task_Run = (acts, fin) \<and>
        forwardConnection (Some d) dest task_Run =
          (WriteToLog AtError (Base (newError [Str ''dispatch connection'']) e) # acts, fin)) \<and>
     (link = None \<longrightarrow>
        forwardConnection (Some d) dest task_Run =
          ([WriteToLog AtError (Base (newError [Str ''dispatch connection'']) e), cancel, conn_Close],
           NilPointerPanic)) \<and>
     (\<forall>l. link = Some l \<longrightarrow>
        forwardConnection (Some d) dest task_Run =
          (WriteToLog AtError (Base (newError [Str ''dispatch connection'']) e) #
             (case task_Run l of
                Some e' \<Rightarrow> [Interrupt_Reader, Interrupt_Writer,
                  WriteToLog AtDebug (Base (newError [Str ''connection ends'']) e'),
                  cancel, conn_Close]
              | None \<Rightarrow> [cancel, conn_Close]),
           Returned))"
  by (auto simp: forwardConnection_def split: option.splits)

text \<open>
  The theorem at a dispatcher that returns an error with a nil link, and at one that
  returns an error with a link on which the copy then fails.
\<close>

theorem forwardConnection_dispatch_error_witness:
  "forwardConnection (Some (\<lambda>x. (None :: unit option, Some (External ''no route'')))) ''10.0.0.1:80''
      (\<lambda>l. None) =
     ([WriteToLog AtError (Base (newError [Str ''dispatch connection'']) (External ''no route'')),
       cancel, conn_Close], NilPointerPanic) \<and>
   forwardConnection (Some (\<lambda>x. (Some (), Some (External ''no route'')))) ''10.0.0.1:80''
      (\<lambda>l. Some ErrClosedPipe) =
     ([WriteToLog AtError (Base (newError [Str ''dispatch connection'']) (External ''no route'')),
       Interrupt_Reader, Interrupt_Writer,
       WriteToLog AtDebug (Base (newError [Str ''connection ends'']) ErrClosedPipe),
       cancel, conn_Close], Returned)"
proof -
  note a = forwardConnection_dispatch_error [of "\<lambda>x. (None :: unit option, Some (External ''no route''))"
      "''10.0.0.1:80''" None "External ''no route''" "\<lambda>l. None"]
  note b = forwardConnection_dispatch_error [of "\<lambda>x. (Some (), Some (External ''no route''))"
      "''10.0.0.1:80''" "Some ()" "External ''no route''" "\<lambda>l. Some ErrClosedPipe"]
  have 1: "forwardConnection (Some (\<lambda>x. (None :: unit option, Some (External ''no route'')))) ''10.0.0.1:80''
      (\<lambda>l. None) =
     ([WriteToLog AtError (Base (newError [Str ''dispatch connection'']) (External ''no route'')),
       cancel, conn_Close], NilPointerPanic)"
    using a by simp
  have 2: "forwardConnection (Some (\<lambda>x. (Some (), Some (External ''no route'')))) ''10.0.0.1:80''
      (\<lambda>l. Some ErrClosedPipe) =
     ([WriteToLog AtError (Base (newError [Str ''dispatch connection'']) (External ''no route'')),
       Interrupt_Reader, Interrupt_Writer,
       WriteToLog AtDebug (Base (newError [Str ''connection ends'']) ErrClosedPipe),
       cancel, conn_Close], Returned)"
    using b by simp
  from 1 2 show ?thesis by (rule conjI)
qed

end
